theory Spec2Isabelle
  imports Main "HOL-Library.Word"
begin

unbundle bit_operations_syntax

section \<open>The machine of forth.c\<close>

text \<open>
  A shallow embedding of \<^verbatim>\<open>forth.c\<close>. Cells are \<^verbatim>\<open>uint16_t\<close>, the core
  \<^verbatim>\<open>m[CORESZ]\<close> is a function from cell indices to cells of which only the indices
  \<open>0 \<le> i < CORESZ\<close> exist: every access of the model checks its index, and an access outside
  the array (undefined behaviour in C) is the result \<open>Undefined\<close>. The byte pointer
  \<^verbatim>\<open>o->s = (uint8_t*)m + STROFF\<close> aliases the core; bytes are read and written through
  the cells, low byte first (a little-endian host).
\<close>

type_synonym cell = "16 word"
type_synonym byte = "8 word"
type_synonym mem = "int \<Rightarrow> cell"

abbreviation CORESZ :: int where "CORESZ \<equiv> 32768"
abbreviation STROFF :: int where "STROFF \<equiv> 16384"
abbreviation STKSZ :: int where "STKSZ \<equiv> 512"
abbreviation BLKSZ :: int where "BLKSZ \<equiv> 1024"

definition CK :: "cell \<Rightarrow> int" where
  "CK X = uint (X AND 0x7fff)"

text \<open>\<^verbatim>\<open>enum registers\<close>\<close>

abbreviation DICTIONARY :: int where "DICTIONARY \<equiv> 0"
abbreviation RSTK :: int where "RSTK \<equiv> 1"
abbreviation STATE :: int where "STATE \<equiv> 8"
abbreviation HEX :: int where "HEX \<equiv> 9"

text \<open>\<^verbatim>\<open>enum codes\<close>\<close>

abbreviation PUSH :: cell where "PUSH \<equiv> 0"
abbreviation COMPILE :: cell where "COMPILE \<equiv> 1"
abbreviation RUN :: cell where "RUN \<equiv> 2"
abbreviation DEFINE :: cell where "DEFINE \<equiv> 3"
abbreviation IMMEDIATE :: cell where "IMMEDIATE \<equiv> 4"
abbreviation COMMENT :: cell where "COMMENT \<equiv> 5"
abbreviation READ :: cell where "READ \<equiv> 6"
abbreviation LOAD :: cell where "LOAD \<equiv> 7"
abbreviation STORE :: cell where "STORE \<equiv> 8"
abbreviation SUB :: cell where "SUB \<equiv> 9"
abbreviation ADD :: cell where "ADD \<equiv> 10"
abbreviation MUL :: cell where "MUL \<equiv> 11"
abbreviation DIV :: cell where "DIV \<equiv> 12"
abbreviation LESS :: cell where "LESS \<equiv> 13"
abbreviation EXIT :: cell where "EXIT \<equiv> 14"
abbreviation EMIT :: cell where "EMIT \<equiv> 15"
abbreviation KEY :: cell where "KEY \<equiv> 16"
abbreviation FROMR :: cell where "FROMR \<equiv> 17"
abbreviation TOR :: cell where "TOR \<equiv> 18"
abbreviation JMP :: cell where "JMP \<equiv> 19"
abbreviation JMPZ :: cell where "JMPZ \<equiv> 20"
abbreviation PNUM :: cell where "PNUM \<equiv> 21"
abbreviation QUOTE :: cell where "QUOTE \<equiv> 22"
abbreviation COMMA :: cell where "COMMA \<equiv> 23"
abbreviation EQUAL :: cell where "EQUAL \<equiv> 24"
abbreviation SWAP :: cell where "SWAP \<equiv> 25"
abbreviation DUP :: cell where "DUP \<equiv> 26"
abbreviation DROP :: cell where "DROP \<equiv> 27"
abbreviation TAIL :: cell where "TAIL \<equiv> 28"
abbreviation BSAVE :: cell where "BSAVE \<equiv> 29"
abbreviation BLOAD :: cell where "BLOAD \<equiv> 30"

definition names :: "string list" where
  "names = [''read'', ''@'', ''!'', ''-'', ''+'', ''*'', ''/'', ''<'', ''exit'',
    ''emit'', ''key'', ''r>'', ''>r'', ''j'', ''jz'', ''.'', [CHR 0x27], '','', ''='', ''swap'', ''dup'',
    ''drop'', ''tail'', ''save'', ''load'']"

subsection \<open>Checked accesses\<close>

datatype 'a chk = Ok 'a | Undefined

fun chk_bind :: "'a chk \<Rightarrow> ('a \<Rightarrow> 'b chk) \<Rightarrow> 'b chk" where
  "chk_bind Undefined g = Undefined"
| "chk_bind (Ok a) g = g a"

definition in_core :: "int \<Rightarrow> bool" where
  "in_core i \<longleftrightarrow> 0 \<le> i \<and> i < CORESZ"

definition in_bytes :: "int \<Rightarrow> bool" where
  "in_bytes a \<longleftrightarrow> 0 \<le> a \<and> a < 2 * CORESZ"

subsection \<open>Bytes of the core\<close>

definition lo_byte :: "cell \<Rightarrow> byte" where
  "lo_byte c = ucast c"

definition hi_byte :: "cell \<Rightarrow> byte" where
  "hi_byte c = ucast (drop_bit 8 c)"

definition set_lo :: "cell \<Rightarrow> byte \<Rightarrow> cell" where
  "set_lo c b = push_bit 8 (drop_bit 8 c) OR ucast b"

definition set_hi :: "cell \<Rightarrow> byte \<Rightarrow> cell" where
  "set_hi c b = take_bit 8 c OR push_bit 8 (ucast b)"

definition byte_at :: "mem \<Rightarrow> int \<Rightarrow> byte" where
  "byte_at m a = (if even a then lo_byte (m (a div 2)) else hi_byte (m (a div 2)))"

definition set_byte :: "mem \<Rightarrow> int \<Rightarrow> byte \<Rightarrow> mem" where
  "set_byte m a b =
     m(a div 2 := (if even a then set_lo (m (a div 2)) b else set_hi (m (a div 2)) b))"

fun store_bytes :: "mem \<Rightarrow> int \<Rightarrow> byte list \<Rightarrow> mem chk" where
  "store_bytes m a [] = Ok m"
| "store_bytes m a (b # bs) =
     (if in_bytes a then store_bytes (set_byte m a b) (a + 1) bs else Undefined)"

definition load_bytes :: "mem \<Rightarrow> int \<Rightarrow> nat \<Rightarrow> byte list" where
  "load_bytes m a n = map (\<lambda>i. byte_at m (a + int i)) [0..<n]"

text \<open>The C string that starts at byte address \<open>a\<close>: the bytes before the first NUL.\<close>

function cstr :: "mem \<Rightarrow> int \<Rightarrow> byte list chk" where
  "cstr m a =
     (if \<not> in_bytes a then Undefined
      else if byte_at m a = 0 then Ok []
      else chk_bind (cstr m (a + 1)) (\<lambda>bs. Ok (byte_at m a # bs)))"
  by pat_completeness auto
termination
  by (relation "measure (\<lambda>(m, a). nat (2 * CORESZ - a))") (auto simp: in_bytes_def)

declare cstr.simps [simp del]

definition strlen :: "mem \<Rightarrow> int \<Rightarrow> int chk" where
  "strlen m a = chk_bind (cstr m a) (\<lambda>bs. Ok (int (length bs)))"

text \<open>\<^verbatim>\<open>strcmp\<close> reads both strings bytewise up to the first difference or the common NUL.\<close>

function strcmp :: "mem \<Rightarrow> int \<Rightarrow> int \<Rightarrow> int chk" where
  "strcmp m a b =
     (if \<not> in_bytes a \<or> \<not> in_bytes b then Undefined
      else if byte_at m a \<noteq> byte_at m b then Ok (uint (byte_at m a) - uint (byte_at m b))
      else if byte_at m a = 0 then Ok 0
      else strcmp m (a + 1) (b + 1))"
  by pat_completeness auto
termination
  by (relation "measure (\<lambda>(m, a, b). nat (2 * CORESZ - a))") (auto simp: in_bytes_def)

declare strcmp.simps [simp del]

subsection \<open>Text formatting\<close>

function udigits :: "nat \<Rightarrow> nat \<Rightarrow> nat list" where
  "udigits b n = (if b < 2 \<or> n < b then [n] else udigits b (n div b) @ [n mod b])"
  by pat_completeness auto
termination
  by (relation "measure (\<lambda>(b, n). n)") auto

declare udigits.simps [simp del]

definition fmt_u :: "nat \<Rightarrow> string" where
  "fmt_u n = map (\<lambda>d. ''0123456789'' ! d) (udigits 10 n)"

definition fmt_X :: "nat \<Rightarrow> string" where
  "fmt_X n = map (\<lambda>d. ''0123456789ABCDEF'' ! d) (udigits 16 n)"

definition fmt_04x :: "nat \<Rightarrow> string" where
  "fmt_04x n = (let ds = map (\<lambda>d. ''0123456789abcdef'' ! d) (udigits 16 n)
                in replicate (4 - length ds) CHR ''0'' @ ds)"

definition bytes_of :: "string \<Rightarrow> byte list" where
  "bytes_of s = map of_char s"

subsection \<open>External blocks\<close>

text \<open>
  The files \<^verbatim>\<open>blockio\<close> opens: \<open>files\<close> gives each existing file its contents,
  \<open>writable\<close> says whether \<^verbatim>\<open>fopen(name, "wb")\<close> succeeds, \<open>room\<close> how many bytes
  \<^verbatim>\<open>fwrite\<close> can put into the file before it stops short, and \<open>opened\<close> lists the
  names \<^verbatim>\<open>fopen\<close> has opened, oldest first.
\<close>

record filesys =
  files :: "string \<Rightarrow> byte list option"
  writable :: "string \<Rightarrow> bool"
  room :: "string \<Rightarrow> nat"
  opened :: "string list"

subsection \<open>The runtime object\<close>

text \<open>
  \<^verbatim>\<open>struct forth_obj\<close>, with the streams it points to (\<open>o_in\<close>: the bytes not yet read,
  \<open>o_out\<close>: the bytes written), the diagnostics written to \<^verbatim>\<open>stderr\<close> and the block
  files. \<open>o_S\<close> is the pointer \<^verbatim>\<open>S\<close> as an index into \<^verbatim>\<open>m\<close>. The fields
  \<open>l_x\<close>, \<open>l_S\<close>, \<open>l_I\<close>, \<open>l_f\<close>, \<open>l_w\<close> are the automatic variables of
  \<^verbatim>\<open>forth_run\<close>, which that function loads from the object and never stores back.
\<close>

record forth_obj =
  o_in :: "byte list"
  o_out :: "byte list"
  o_err :: "string list"
  o_fs :: filesys
  o_S :: int
  o_L :: cell
  o_I :: cell
  o_t :: cell
  o_w :: cell
  o_f :: cell
  o_x :: cell
  o_m :: mem
  o_invalid :: bool
  l_x :: cell
  l_S :: int
  l_I :: cell
  l_f :: cell
  l_w :: cell

text \<open>
  \<^verbatim>\<open>WARN(MSG)\<close> prints one line to \<^verbatim>\<open>stderr\<close> and has the value of
  \<^verbatim>\<open>fprintf\<close>: the number of characters printed (the write is taken to succeed).
  \<^verbatim>\<open>__FILE__\<close> is the name of the source file, \<^verbatim>\<open>forth.c\<close>.
\<close>

definition FILE_NAME :: string where
  "FILE_NAME = ''forth.c''"

definition warn_text :: "string \<Rightarrow> nat \<Rightarrow> string" where
  "warn_text MSG line =
     ''( error '' @ [CHR 0x22] @ MSG @ [CHR 0x22] @ '' '' @ FILE_NAME @ '' '' @ fmt_u line
       @ '' )'' @ [CHR 0x0A]"

definition WARN :: "string \<Rightarrow> nat \<Rightarrow> forth_obj \<Rightarrow> int \<times> forth_obj" where
  "WARN MSG line st =
     (int (length (warn_text MSG line)), st\<lparr>o_err := o_err st @ [warn_text MSG line]\<rparr>)"

subsection \<open>Stacks and dictionary\<close>

text \<open>
  Where one C expression modifies a cell and accesses the same cell again without a sequence
  point (\<^verbatim>\<open>m[m[0]++] = v\<close> with \<^verbatim>\<open>m[0] == 0\<close>, \<^verbatim>\<open>m[++m[RSTK]] = v\<close> and
  \<^verbatim>\<open>m[m[RSTK]--]\<close> with the index \<^verbatim>\<open>RSTK\<close>) the behaviour is undefined as well.
\<close>

text \<open>\<^verbatim>\<open>*++S = v\<close>\<close>

definition dpush :: "cell \<Rightarrow> forth_obj \<Rightarrow> forth_obj chk" where
  "dpush v st =
     (let S' = l_S st + 1
      in if in_core S' then Ok (st\<lparr>l_S := S', o_m := (o_m st)(S' := v)\<rparr>) else Undefined)"

text \<open>\<^verbatim>\<open>*S--\<close>\<close>

definition dpop :: "forth_obj \<Rightarrow> (cell \<times> forth_obj) chk" where
  "dpop st =
     (if in_core (l_S st) then Ok (o_m st (l_S st), st\<lparr>l_S := l_S st - 1\<rparr>) else Undefined)"

text \<open>\<^verbatim>\<open>m[m[0]++] = v\<close>\<close>

definition comma :: "cell \<Rightarrow> forth_obj \<Rightarrow> forth_obj chk" where
  "comma v st =
     (let d = uint (o_m st DICTIONARY)
      in if d = DICTIONARY \<or> \<not> in_core d then Undefined
         else Ok (st\<lparr>o_m := (o_m st)(DICTIONARY := o_m st DICTIONARY + 1, d := v)\<rparr>))"

text \<open>\<^verbatim>\<open>m[++m[RSTK]] = v\<close>\<close>

definition rpush :: "cell \<Rightarrow> forth_obj \<Rightarrow> forth_obj chk" where
  "rpush v st =
     (let r = o_m st RSTK + 1
      in if uint r = RSTK \<or> \<not> in_core (uint r) then Undefined
         else Ok (st\<lparr>o_m := (o_m st)(RSTK := r, uint r := v)\<rparr>))"

text \<open>\<^verbatim>\<open>m[m[RSTK]--]\<close>\<close>

definition rpop :: "forth_obj \<Rightarrow> (cell \<times> forth_obj) chk" where
  "rpop st =
     (let r = o_m st RSTK
      in if uint r = RSTK \<or> \<not> in_core (uint r) then Undefined
         else Ok (o_m st (uint r), st\<lparr>o_m := (o_m st)(RSTK := r - 1)\<rparr>))"

text \<open>\<^verbatim>\<open>m[I++]\<close>\<close>

definition next_cell :: "forth_obj \<Rightarrow> (cell \<times> forth_obj) chk" where
  "next_cell st =
     (if in_core (uint (l_I st)) then Ok (o_m st (uint (l_I st)), st\<lparr>l_I := l_I st + 1\<rparr>)
      else Undefined)"

subsection \<open>Reading tokens\<close>

definition isspace :: "byte \<Rightarrow> bool" where
  "isspace c \<longleftrightarrow> c = 32 \<or> (9 \<le> c \<and> c \<le> 13)"

text \<open>
  The conversion \<^verbatim>\<open>%31s\<close>: skip white space, then take up to 31 bytes that are not white
  space. \<open>None\<close> is the end of the input before any such byte.
\<close>

definition scan_token :: "byte list \<Rightarrow> (byte list \<times> byte list) option" where
  "scan_token inp =
     (let inp' = dropWhile isspace inp
      in if inp' = [] then None
         else let tok = take 31 (takeWhile (\<lambda>c. \<not> isspace c) inp')
              in Some (tok, drop (length tok) inp'))"

text \<open>\<^verbatim>\<open>fscanf(o->in, "%31s", dest)\<close>, with \<open>dest\<close> a byte address of the core; \<^verbatim>\<open>EOF\<close> is -1.\<close>

definition fscanf_s :: "int \<Rightarrow> forth_obj \<Rightarrow> (int \<times> forth_obj) chk" where
  "fscanf_s dest st =
     (case scan_token (o_in st) of
        None \<Rightarrow> Ok (- 1, st\<lparr>o_in := []\<rparr>)
      | Some (tok, rest) \<Rightarrow>
          chk_bind (store_bytes (o_m st) dest (tok @ [0]))
            (\<lambda>m'. Ok (1, st\<lparr>o_in := rest, o_m := m'\<rparr>)))"

text \<open>\<^verbatim>\<open>fgetc(o->in)\<close>\<close>

definition fgetc :: "forth_obj \<Rightarrow> int \<times> forth_obj" where
  "fgetc st = (case o_in st of [] \<Rightarrow> (- 1, st) | c # cs \<Rightarrow> (uint c, st\<lparr>o_in := cs\<rparr>))"

definition compile_word :: "cell \<Rightarrow> string option \<Rightarrow> forth_obj \<Rightarrow> (int \<times> forth_obj) chk" where
  "compile_word code str st =
     chk_bind (comma (o_L st) st) (\<lambda>st1.
     let st2 = st1\<lparr>o_L := o_m st1 DICTIONARY - 1\<rparr> in
     chk_bind (comma (o_t st2) st2) (\<lambda>st3.
     chk_bind (comma code st3) (\<lambda>st4.
     chk_bind
       (case str of
          Some s \<Rightarrow>
            chk_bind (store_bytes (o_m st4) (STROFF + uint (o_t st4)) (bytes_of s @ [0]))
              (\<lambda>m'. Ok (0, st4\<lparr>o_m := m'\<rparr>))
        | None \<Rightarrow> fscanf_s (STROFF + uint (o_t st4)) st4) (\<lambda>(r, st5).
     chk_bind (strlen (o_m st5) (STROFF + uint (o_t st5))) (\<lambda>n.
     Ok (r, st5\<lparr>o_t := o_t st5 + word_of_int (n + 1)\<rparr>))))))"

subsection \<open>Block files\<close>

definition fopen :: "string \<Rightarrow> string \<Rightarrow> filesys \<Rightarrow> filesys option" where
  "fopen name mode fs =
     (if mode = ''rb'' then
        (case files fs name of
           None \<Rightarrow> None
         | Some bs \<Rightarrow> Some (fs\<lparr>opened := opened fs @ [name]\<rparr>))
      else if writable fs name then
        Some (fs\<lparr>files := (files fs)(name \<mapsto> []), opened := opened fs @ [name]\<rparr>)
      else None)"

definition fwrite :: "byte list \<Rightarrow> string \<Rightarrow> filesys \<Rightarrow> nat \<times> filesys" where
  "fwrite bs name fs =
     (let n = min (length bs) (room fs name)
      in (n, fs\<lparr>files := (files fs)(name \<mapsto> take n bs)\<rparr>))"

definition fread :: "nat \<Rightarrow> string \<Rightarrow> filesys \<Rightarrow> byte list" where
  "fread n name fs = (case files fs name of None \<Rightarrow> [] | Some bs \<Rightarrow> take n bs)"

text \<open>
  \<^verbatim>\<open>blockio(m, poffset, id, rw)\<close>: \<^verbatim>\<open>p\<close> is a \<^verbatim>\<open>void*\<close>, so \<open>poffset\<close> counts bytes
  of the core.
\<close>

definition blockio :: "cell \<Rightarrow> cell \<Rightarrow> char \<Rightarrow> forth_obj \<Rightarrow> (int \<times> forth_obj) chk" where
  "blockio poffset ident rw st =
     (if uint poffset > CORESZ - BLKSZ \<or> \<not> (rw = CHR ''w'' \<or> rw = CHR ''r'') then
        Ok (- 1, snd (WARN ''invalid address or mode'' 67 st))
      else
        let name = fmt_04x (unat ident) @ ''.blk'' in
        case fopen name (if rw = CHR ''r'' then ''rb'' else ''wb'') (o_fs st) of
          None \<Rightarrow> Ok (- 1, snd (WARN ''could not open file'' 70 st))
        | Some fs1 \<Rightarrow>
            if rw = CHR ''w'' then
              (let (n, fs2) = fwrite (load_bytes (o_m st) (uint poffset) (nat BLKSZ)) name fs1
               in Ok (if int n = BLKSZ then 0 else - 1, st\<lparr>o_fs := fs2\<rparr>))
            else
              (let bs = fread (nat BLKSZ) name fs1
               in chk_bind (store_bytes (o_m st) (uint poffset) bs)
                    (\<lambda>m'. Ok (if int (length bs) = BLKSZ then 0 else - 1,
                               st\<lparr>o_fs := fs1, o_m := m'\<rparr>))))"

subsection \<open>Numbers\<close>

definition is_digit :: "byte \<Rightarrow> bool" where
  "is_digit c \<longleftrightarrow> 48 \<le> c \<and> c \<le> 57"

text \<open>\<^verbatim>\<open>isnum\<close>, on the bytes of the C string it is given.\<close>

definition isnum :: "byte list \<Rightarrow> bool" where
  "isnum s =
     (let s' = (if s \<noteq> [] \<and> hd s = 45 then tl s else s)
      in dropWhile is_digit s' = [])"

definition digit_val :: "byte \<Rightarrow> nat option" where
  "digit_val c =
     (if 48 \<le> c \<and> c \<le> 57 then Some (unat c - 48)
      else if 97 \<le> c \<and> c \<le> 122 then Some (unat c - 87)
      else if 65 \<le> c \<and> c \<le> 90 then Some (unat c - 55)
      else None)"

fun strtol_digits :: "nat \<Rightarrow> nat \<Rightarrow> byte list \<Rightarrow> nat" where
  "strtol_digits b acc [] = acc"
| "strtol_digits b acc (c # cs) =
     (case digit_val c of
        None \<Rightarrow> acc
      | Some d \<Rightarrow> if d < b then strtol_digits b (acc * b + d) cs else acc)"

abbreviation LONG_MAX :: int where "LONG_MAX \<equiv> 9223372036854775807"

text \<open>
  \<^verbatim>\<open>strtol(s, NULL, 0)\<close> with a 64-bit \<^verbatim>\<open>long\<close>: white space, a sign, the prefix
  \<^verbatim>\<open>0x\<close> (before a hexadecimal digit) for base 16 or \<^verbatim>\<open>0\<close> for base 8, the longest run
  of digits of the base, and the value clamped to the range of \<^verbatim>\<open>long\<close>.
\<close>

definition strtol :: "byte list \<Rightarrow> int" where
  "strtol s =
     (let s1 = dropWhile isspace s;
          neg = (s1 \<noteq> [] \<and> hd s1 = 45);
          s2 = (if s1 \<noteq> [] \<and> (hd s1 = 45 \<or> hd s1 = 43) then tl s1 else s1);
          hex = (case s2 of
                   c0 # c1 # c2 # r \<Rightarrow>
                     c0 = 48 \<and> (c1 = 120 \<or> c1 = 88)
                     \<and> (case digit_val c2 of None \<Rightarrow> False | Some d \<Rightarrow> d < 16)
                 | _ \<Rightarrow> False);
          v = (if hex then strtol_digits 16 0 (drop 2 s2)
               else if s2 \<noteq> [] \<and> hd s2 = 48 then strtol_digits 8 0 s2
               else strtol_digits 10 0 s2)
      in if neg then max (- int v) (- LONG_MAX - 1) else min (int v) LONG_MAX)"

subsection \<open>The instructions\<close>

text \<open>
  One definition for each \<^verbatim>\<open>case\<close> of the \<^verbatim>\<open>switch\<close> in \<^verbatim>\<open>forth_run\<close>, applied to
  the state after \<^verbatim>\<open>x++\<close>. A \<^verbatim>\<open>case\<close> ends in \<^verbatim>\<open>break\<close>, in \<^verbatim>\<open>goto INNER\<close>, in a
  \<^verbatim>\<open>return\<close>, or in undefined behaviour.
\<close>

datatype outcome = Break forth_obj | Goto_INNER forth_obj | Return int forth_obj | UB

definition brk :: "forth_obj chk \<Rightarrow> outcome" where
  "brk r = (case r of Ok st \<Rightarrow> Break st | Undefined \<Rightarrow> UB)"

text \<open>\<^verbatim>\<open>*++S = f; f = m[I++];\<close>\<close>

definition op_PUSH :: "forth_obj \<Rightarrow> forth_obj chk" where
  "op_PUSH st =
     chk_bind (dpush (l_f st) st) (\<lambda>st1.
     chk_bind (next_cell st1) (\<lambda>(v, st2). Ok (st2\<lparr>l_f := v\<rparr>)))"

text \<open>\<^verbatim>\<open>m[m[0]++] = x;\<close>\<close>

definition op_COMPILE :: "forth_obj \<Rightarrow> forth_obj chk" where
  "op_COMPILE st = comma (l_x st) st"

text \<open>\<^verbatim>\<open>m[++m[RSTK]] = I; I = x;\<close>\<close>

definition op_RUN :: "forth_obj \<Rightarrow> forth_obj chk" where
  "op_RUN st = chk_bind (rpush (l_I st) st) (\<lambda>st1. Ok (st1\<lparr>l_I := l_x st1\<rparr>))"

text \<open>
  \<^verbatim>\<open>m[STATE] = 1; if(compile_word(o, COMPILE, NULL) < 0) return -(o->invalid = 1);
  m[m[0]++] = RUN;\<close>
\<close>

definition op_DEFINE :: "forth_obj \<Rightarrow> outcome" where
  "op_DEFINE st =
     (case compile_word COMPILE None (st\<lparr>o_m := (o_m st)(STATE := 1)\<rparr>) of
        Undefined \<Rightarrow> UB
      | Ok (r, st1) \<Rightarrow>
          if r < 0 then Return (- 1) (st1\<lparr>o_invalid := True\<rparr>)
          else brk (comma RUN st1))"

text \<open>\<^verbatim>\<open>*m -= 2; m[m[0]++] = RUN;\<close>\<close>

definition op_IMMEDIATE :: "forth_obj \<Rightarrow> forth_obj chk" where
  "op_IMMEDIATE st = comma RUN (st\<lparr>o_m := (o_m st)(DICTIONARY := o_m st DICTIONARY - 2)\<rparr>)"

text \<open>\<^verbatim>\<open>while((c=fgetc(o->in)) > 0) if(c == '\n') break;\<close>\<close>

fun skip_line :: "byte list \<Rightarrow> byte list" where
  "skip_line [] = []"
| "skip_line (c # cs) = (if c = 0 \<or> c = 10 then cs else skip_line cs)"

definition op_COMMENT :: "forth_obj \<Rightarrow> forth_obj chk" where
  "op_COMMENT st = Ok (st\<lparr>o_in := skip_line (o_in st)\<rparr>)"

text \<open>\<^verbatim>\<open>f = m[CK(f)];\<close>\<close>

definition op_LOAD :: "forth_obj \<Rightarrow> forth_obj chk" where
  "op_LOAD st =
     (if in_core (CK (l_f st)) then Ok (st\<lparr>l_f := o_m st (CK (l_f st))\<rparr>) else Undefined)"

text \<open>\<^verbatim>\<open>m[CK(f)] = *S--; f = *S--;\<close>\<close>

definition op_STORE :: "forth_obj \<Rightarrow> forth_obj chk" where
  "op_STORE st =
     chk_bind (dpop st) (\<lambda>(v, st1).
     if \<not> in_core (CK (l_f st1)) then Undefined
     else chk_bind (dpop (st1\<lparr>o_m := (o_m st1)(CK (l_f st1) := v)\<rparr>)) (\<lambda>(v', st2).
       Ok (st2\<lparr>l_f := v'\<rparr>)))"

text \<open>\<^verbatim>\<open>f = *S-- - f;\<close>\<close>

definition op_SUB :: "forth_obj \<Rightarrow> forth_obj chk" where
  "op_SUB st = chk_bind (dpop st) (\<lambda>(v, st1). Ok (st1\<lparr>l_f := v - l_f st1\<rparr>))"

text \<open>\<^verbatim>\<open>f = *S-- + f;\<close>\<close>

definition op_ADD :: "forth_obj \<Rightarrow> forth_obj chk" where
  "op_ADD st = chk_bind (dpop st) (\<lambda>(v, st1). Ok (st1\<lparr>l_f := v + l_f st1\<rparr>))"

text \<open>
  \<^verbatim>\<open>f *= *S--;\<close> Both operands are promoted to \<^verbatim>\<open>int\<close> (32 bits) before they are
  multiplied: a product above \<^verbatim>\<open>INT_MAX\<close> is a signed overflow, which is undefined in C.
  A product that fits is cut to 16 bits by the assignment.
\<close>

abbreviation INT_MAX :: int where "INT_MAX \<equiv> 2147483647"

definition op_MUL :: "forth_obj \<Rightarrow> forth_obj chk" where
  "op_MUL st =
     chk_bind (dpop st) (\<lambda>(v, st1).
       if INT_MAX < uint (l_f st1) * uint v then Undefined
       else Ok (st1\<lparr>l_f := l_f st1 * v\<rparr>))"

text \<open>
  \<^verbatim>\<open>f = f ? *S--/f:WARN("div 0"),0;\<close> The comma operator binds weaker than the assignment:
  the statement is \<^verbatim>\<open>(f = (f ? *S--/f : WARN("div 0"))), 0;\<close>.
\<close>

definition op_DIV :: "forth_obj \<Rightarrow> forth_obj chk" where
  "op_DIV st =
     (if l_f st \<noteq> 0 then chk_bind (dpop st) (\<lambda>(v, st1). Ok (st1\<lparr>l_f := v div l_f st1\<rparr>))
      else (let (n, st1) = WARN ''div 0'' 184 st in Ok (st1\<lparr>l_f := word_of_int n\<rparr>)))"

text \<open>\<^verbatim>\<open>f = *S-- > f;\<close>\<close>

definition op_LESS :: "forth_obj \<Rightarrow> forth_obj chk" where
  "op_LESS st = chk_bind (dpop st) (\<lambda>(v, st1). Ok (st1\<lparr>l_f := (if v > l_f st1 then 1 else 0)\<rparr>))"

text \<open>\<^verbatim>\<open>I = m[m[RSTK]--];\<close>\<close>

definition op_EXIT :: "forth_obj \<Rightarrow> forth_obj chk" where
  "op_EXIT st = chk_bind (rpop st) (\<lambda>(v, st1). Ok (st1\<lparr>l_I := v\<rparr>))"

text \<open>\<^verbatim>\<open>fputc(f, o->out); f = *S--;\<close>\<close>

definition op_EMIT :: "forth_obj \<Rightarrow> forth_obj chk" where
  "op_EMIT st =
     chk_bind (dpop (st\<lparr>o_out := o_out st @ [ucast (l_f st)]\<rparr>)) (\<lambda>(v, st1).
       Ok (st1\<lparr>l_f := v\<rparr>))"

text \<open>\<^verbatim>\<open>*++S = f; f = fgetc(o->in);\<close>\<close>

definition op_KEY :: "forth_obj \<Rightarrow> forth_obj chk" where
  "op_KEY st =
     chk_bind (dpush (l_f st) st) (\<lambda>st1.
     let (c, st2) = fgetc st1 in Ok (st2\<lparr>l_f := word_of_int c\<rparr>))"

text \<open>\<^verbatim>\<open>*++S = f; f = m[m[RSTK]--];\<close>\<close>

definition op_FROMR :: "forth_obj \<Rightarrow> forth_obj chk" where
  "op_FROMR st =
     chk_bind (dpush (l_f st) st) (\<lambda>st1.
     chk_bind (rpop st1) (\<lambda>(v, st2). Ok (st2\<lparr>l_f := v\<rparr>)))"

text \<open>\<^verbatim>\<open>m[++m[RSTK]] = f; f = *S--;\<close>\<close>

definition op_TOR :: "forth_obj \<Rightarrow> forth_obj chk" where
  "op_TOR st =
     chk_bind (rpush (l_f st) st) (\<lambda>st1.
     chk_bind (dpop st1) (\<lambda>(v, st2). Ok (st2\<lparr>l_f := v\<rparr>)))"

text \<open>\<^verbatim>\<open>I += m[I];\<close>\<close>

definition op_JMP :: "forth_obj \<Rightarrow> forth_obj chk" where
  "op_JMP st =
     (if in_core (uint (l_I st)) then Ok (st\<lparr>l_I := l_I st + o_m st (uint (l_I st))\<rparr>)
      else Undefined)"

text \<open>\<^verbatim>\<open>I += f == 0 ? m[I]:1; f = *S--;\<close>\<close>

definition op_JMPZ :: "forth_obj \<Rightarrow> forth_obj chk" where
  "op_JMPZ st =
     chk_bind
       (if l_f st = 0 then
          (if in_core (uint (l_I st)) then Ok (st\<lparr>l_I := l_I st + o_m st (uint (l_I st))\<rparr>)
           else Undefined)
        else Ok (st\<lparr>l_I := l_I st + 1\<rparr>)) (\<lambda>st1.
     chk_bind (dpop st1) (\<lambda>(v, st2). Ok (st2\<lparr>l_f := v\<rparr>)))"

text \<open>\<^verbatim>\<open>fprintf(o->out, m[HEX]? "%X":"%u", f); f = *S--;\<close>\<close>

definition op_PNUM :: "forth_obj \<Rightarrow> forth_obj chk" where
  "op_PNUM st =
     chk_bind
       (dpop (st\<lparr>o_out := o_out st
                @ bytes_of ((if o_m st HEX \<noteq> 0 then fmt_X else fmt_u) (unat (l_f st)))\<rparr>))
       (\<lambda>(v, st1). Ok (st1\<lparr>l_f := v\<rparr>))"

text \<open>\<^verbatim>\<open>*++S = f; f = m[I++];\<close>\<close>

definition op_QUOTE :: "forth_obj \<Rightarrow> forth_obj chk" where
  "op_QUOTE st =
     chk_bind (dpush (l_f st) st) (\<lambda>st1.
     chk_bind (next_cell st1) (\<lambda>(v, st2). Ok (st2\<lparr>l_f := v\<rparr>)))"

text \<open>\<^verbatim>\<open>m[m[0]++] = f; f = *S--;\<close>\<close>

definition op_COMMA :: "forth_obj \<Rightarrow> forth_obj chk" where
  "op_COMMA st =
     chk_bind (comma (l_f st) st) (\<lambda>st1.
     chk_bind (dpop st1) (\<lambda>(v, st2). Ok (st2\<lparr>l_f := v\<rparr>)))"

text \<open>\<^verbatim>\<open>f = *S-- == f;\<close>\<close>

definition op_EQUAL :: "forth_obj \<Rightarrow> forth_obj chk" where
  "op_EQUAL st = chk_bind (dpop st) (\<lambda>(v, st1). Ok (st1\<lparr>l_f := (if v = l_f st1 then 1 else 0)\<rparr>))"

text \<open>\<^verbatim>\<open>w = f; f = *S--; *++S = w;\<close>\<close>

definition op_SWAP :: "forth_obj \<Rightarrow> forth_obj chk" where
  "op_SWAP st =
     chk_bind (dpop (st\<lparr>l_w := l_f st\<rparr>)) (\<lambda>(v, st1).
     dpush (l_w st1) (st1\<lparr>l_f := v\<rparr>))"

text \<open>\<^verbatim>\<open>*++S = f;\<close>\<close>

definition op_DUP :: "forth_obj \<Rightarrow> forth_obj chk" where
  "op_DUP st = dpush (l_f st) st"

text \<open>\<^verbatim>\<open>f = *S--;\<close>\<close>

definition op_DROP :: "forth_obj \<Rightarrow> forth_obj chk" where
  "op_DROP st = chk_bind (dpop st) (\<lambda>(v, st1). Ok (st1\<lparr>l_f := v\<rparr>))"

text \<open>\<^verbatim>\<open>m[RSTK]--;\<close>\<close>

definition op_TAIL :: "forth_obj \<Rightarrow> forth_obj chk" where
  "op_TAIL st = Ok (st\<lparr>o_m := (o_m st)(RSTK := o_m st RSTK - 1)\<rparr>)"

text \<open>\<^verbatim>\<open>f = blockio(m,*S--,f,'w');\<close> and \<^verbatim>\<open>f = blockio(m,*S--,f,'r');\<close>\<close>

definition op_BSAVE :: "forth_obj \<Rightarrow> forth_obj chk" where
  "op_BSAVE st =
     chk_bind (dpop st) (\<lambda>(v, st1).
     chk_bind (blockio v (l_f st1) CHR ''w'' st1) (\<lambda>(r, st2). Ok (st2\<lparr>l_f := word_of_int r\<rparr>)))"

definition op_BLOAD :: "forth_obj \<Rightarrow> forth_obj chk" where
  "op_BLOAD st =
     chk_bind (dpop st) (\<lambda>(v, st1).
     chk_bind (blockio v (l_f st1) CHR ''r'' st1) (\<lambda>(r, st2). Ok (st2\<lparr>l_f := word_of_int r\<rparr>)))"

text \<open>\<^verbatim>\<open>default: WARN("unknown instruction"); return -(o->invalid = 1);\<close>\<close>

definition op_default :: "forth_obj \<Rightarrow> outcome" where
  "op_default st = Return (- 1) ((snd (WARN ''unknown instruction'' 205 st))\<lparr>o_invalid := True\<rparr>)"

subsection \<open>The name resolver and the read instruction\<close>

text \<open>
  \<^verbatim>\<open>for (w = o->L; strcmp((char*)o->s, (char*)&o->s[m[w + 1]]); w = m[w]);\<close>
  The loop has no bound of its own: \<open>None\<close> is the walk that never ends.
\<close>

partial_function (option) find_from :: "mem \<Rightarrow> cell \<Rightarrow> cell chk option" where
  "find_from m w =
     (if \<not> in_core (uint w + 1) then Some Undefined
      else case strcmp m STROFF (STROFF + uint (m (uint w + 1))) of
             Undefined \<Rightarrow> Some Undefined
           | Ok c \<Rightarrow> if c = 0 then Some (Ok w) else find_from m (m (uint w)))"

declare find_from.simps [code]

text \<open>\<^verbatim>\<open>find(o)\<close>\<close>

definition find_word :: "forth_obj \<Rightarrow> cell chk option" where
  "find_word st = find_from (o_m st) (o_L st)"

text \<open>The branch \<^verbatim>\<open>if (w - 1)\<close> of the read instruction: the token is a word.\<close>

definition read_word :: "forth_obj \<Rightarrow> outcome" where
  "read_word st0 =
     (let st = st0\<lparr>l_x := l_w st0 + 2\<rparr>
      in if o_m st STATE = 0 then
           (if \<not> in_core (uint (l_x st)) then UB
            else if o_m st (uint (l_x st)) = COMPILE then Goto_INNER (st\<lparr>l_x := l_x st + 1\<rparr>)
            else Goto_INNER st)
         else Goto_INNER st)"

text \<open>The other branches: the token is not in the dictionary.\<close>

definition read_number :: "forth_obj \<Rightarrow> outcome" where
  "read_number st =
     (case cstr (o_m st) STROFF of
        Undefined \<Rightarrow> UB
      | Ok s \<Rightarrow>
          if \<not> isnum s then Break (snd (WARN ''not a word or number'' 168 st))
          else if o_m st STATE \<noteq> 0 then
            brk (chk_bind (comma 2 st) (\<lambda>st1.
                 chk_bind (cstr (o_m st1) STROFF) (\<lambda>s1.
                 comma (word_of_int (strtol s1)) st1)))
          else
            brk (chk_bind (dpush (l_f st) st) (\<lambda>st1.
                 chk_bind (cstr (o_m st1) STROFF) (\<lambda>s1.
                 Ok (st1\<lparr>l_f := word_of_int (strtol s1)\<rparr>)))))"

definition op_READ :: "forth_obj \<Rightarrow> outcome option" where
  "op_READ st0 =
     (case fscanf_s STROFF (st0\<lparr>o_m := (o_m st0)(RSTK := o_m st0 RSTK - 1)\<rparr>) of
        Undefined \<Rightarrow> Some UB
      | Ok (r, st) \<Rightarrow>
          if r < 1 then Some (Return 0 st)
          else
            (case find_word st of
               None \<Rightarrow> None
             | Some Undefined \<Rightarrow> Some UB
             | Some (Ok w) \<Rightarrow>
                 Some (if w \<noteq> 1 then read_word (st\<lparr>l_w := w\<rparr>)
                       else read_number (st\<lparr>l_w := w\<rparr>))))"

subsection \<open>The interpreter loop\<close>

text \<open>\<^verbatim>\<open>switch (m[x++])\<close>: one pass through the \<^verbatim>\<open>switch\<close> statement.\<close>

definition switch :: "forth_obj \<Rightarrow> outcome option" where
  "switch st0 =
     (if \<not> in_core (uint (l_x st0)) then Some UB
      else
        let c = o_m st0 (uint (l_x st0)); st = st0\<lparr>l_x := l_x st0 + 1\<rparr> in
        if c = PUSH then Some (brk (op_PUSH st))
        else if c = COMPILE then Some (brk (op_COMPILE st))
        else if c = RUN then Some (brk (op_RUN st))
        else if c = DEFINE then Some (op_DEFINE st)
        else if c = IMMEDIATE then Some (brk (op_IMMEDIATE st))
        else if c = COMMENT then Some (brk (op_COMMENT st))
        else if c = READ then op_READ st
        else if c = LOAD then Some (brk (op_LOAD st))
        else if c = STORE then Some (brk (op_STORE st))
        else if c = SUB then Some (brk (op_SUB st))
        else if c = ADD then Some (brk (op_ADD st))
        else if c = MUL then Some (brk (op_MUL st))
        else if c = DIV then Some (brk (op_DIV st))
        else if c = LESS then Some (brk (op_LESS st))
        else if c = EXIT then Some (brk (op_EXIT st))
        else if c = EMIT then Some (brk (op_EMIT st))
        else if c = KEY then Some (brk (op_KEY st))
        else if c = FROMR then Some (brk (op_FROMR st))
        else if c = TOR then Some (brk (op_TOR st))
        else if c = JMP then Some (brk (op_JMP st))
        else if c = JMPZ then Some (brk (op_JMPZ st))
        else if c = PNUM then Some (brk (op_PNUM st))
        else if c = QUOTE then Some (brk (op_QUOTE st))
        else if c = COMMA then Some (brk (op_COMMA st))
        else if c = EQUAL then Some (brk (op_EQUAL st))
        else if c = SWAP then Some (brk (op_SWAP st))
        else if c = DUP then Some (brk (op_DUP st))
        else if c = DROP then Some (brk (op_DROP st))
        else if c = TAIL then Some (brk (op_TAIL st))
        else if c = BSAVE then Some (brk (op_BSAVE st))
        else if c = BLOAD then Some (brk (op_BLOAD st))
        else Some (op_default st))"

text \<open>The head of the loop, \<^verbatim>\<open>x = m[I++]\<close>; the loop ends when \<open>x\<close> is 0.\<close>

definition for_head :: "forth_obj \<Rightarrow> forth_obj chk" where
  "for_head st = chk_bind (next_cell st) (\<lambda>(v, st1). Ok (st1\<lparr>l_x := v\<rparr>))"

text \<open>
  Control at the label \<^verbatim>\<open>INNER\<close>: the \<^verbatim>\<open>switch\<close>, and after a \<^verbatim>\<open>break\<close> the head of
  the loop and the \<^verbatim>\<open>switch\<close> again. A program of the machine may run forever: \<open>None\<close>.
\<close>

partial_function (option) INNER :: "forth_obj \<Rightarrow> (int \<times> forth_obj) chk option" where
  "INNER st =
     Option.bind (switch st) (\<lambda>r.
       case r of
         UB \<Rightarrow> Some Undefined
       | Return v st1 \<Rightarrow> Some (Ok (v, st1))
       | Goto_INNER st1 \<Rightarrow> INNER st1
       | Break st1 \<Rightarrow>
           (case for_head st1 of
              Undefined \<Rightarrow> Some Undefined
            | Ok st2 \<Rightarrow> if l_x st2 = 0 then Some (Ok (0, st2)) else INNER st2))"

declare INNER.simps [code]

definition forth_run :: "forth_obj \<Rightarrow> (int \<times> forth_obj) chk option" where
  "forth_run obj =
     (if o_invalid obj then
        Some (Ok (- 1, (snd (WARN ''invalid obj'' 139 obj))\<lparr>o_invalid := True\<rparr>))
      else
        case for_head (obj\<lparr>l_x := o_x obj, l_S := o_S obj, l_I := o_I obj, l_f := o_f obj\<rparr>) of
          Undefined \<Rightarrow> Some Undefined
        | Ok st \<Rightarrow> if l_x st = 0 then Some (Ok (0, st)) else INNER st)"

subsection \<open>Initialisation\<close>

text \<open>
  \<^verbatim>\<open>for(i = 0, w = READ; names[i]; i++) compile_word(o, COMPILE, names[i]), m[m[0]++] = w++;\<close>
\<close>

fun compile_names :: "string list \<Rightarrow> cell \<Rightarrow> forth_obj \<Rightarrow> forth_obj chk" where
  "compile_names [] w st = Ok st"
| "compile_names (n # ns) w st =
     chk_bind (compile_word COMPILE (Some n) st) (\<lambda>(r, st1).
     chk_bind (comma w st1) (\<lambda>st2. compile_names ns (w + 1) st2))"

text \<open>The object after \<^verbatim>\<open>calloc\<close>, with its streams.\<close>

definition calloc_obj :: "byte list \<Rightarrow> filesys \<Rightarrow> forth_obj" where
  "calloc_obj inp fs =
     \<lparr>o_in = inp, o_out = [], o_err = [], o_fs = fs, o_S = 0, o_L = 0, o_I = 0, o_t = 0,
      o_w = 0, o_f = 0, o_x = 0, o_m = (\<lambda>i. 0), o_invalid = False,
      l_x = 0, l_S = 0, l_I = 0, l_f = 0, l_w = 0\<rparr>"

definition forth_init :: "byte list \<Rightarrow> filesys \<Rightarrow> forth_obj chk" where
  "forth_init inp fs =
     (let st0 = (calloc_obj inp fs)\<lparr>o_m := (\<lambda>i. 0)(DICTIONARY := 32), o_L := 1, o_t := 32\<rparr>;
          w = o_m st0 DICTIONARY
      in chk_bind (comma READ st0) (\<lambda>st1.
         chk_bind (comma RUN st1) (\<lambda>st2.
         let st3 = st2\<lparr>o_I := o_m st2 DICTIONARY\<rparr> in
         chk_bind (comma w st3) (\<lambda>st4.
         chk_bind (comma (o_I st4 - 1) st4) (\<lambda>st5.
         chk_bind (compile_word DEFINE (Some '':'') st5) (\<lambda>(r, st6).
         chk_bind (compile_word IMMEDIATE (Some ''immediate'') st6) (\<lambda>(r, st7).
         chk_bind (compile_word COMMENT (Some ''#'') st7) (\<lambda>(r, st8).
         chk_bind (compile_names names READ st8) (\<lambda>st9.
         Ok (st9\<lparr>o_m := (o_m st9)(RSTK := word_of_int (CORESZ - STKSZ)),
                 o_S := CORESZ - 2 * STKSZ\<rparr>))))))))))"

subsection \<open>Running the machine\<close>

text \<open>Several calls of \<^verbatim>\<open>forth_run\<close> on one object, with the values they return.\<close>

fun run_calls :: "nat \<Rightarrow> forth_obj \<Rightarrow> (int list \<times> forth_obj) chk option" where
  "run_calls 0 st = Some (Ok ([], st))"
| "run_calls (Suc n) st =
     (case forth_run st of
        None \<Rightarrow> None
      | Some Undefined \<Rightarrow> Some Undefined
      | Some (Ok (r, st1)) \<Rightarrow>
          (case run_calls n st1 of
             None \<Rightarrow> None
           | Some Undefined \<Rightarrow> Some Undefined
           | Some (Ok (rs, st2)) \<Rightarrow> Some (Ok (r # rs, st2))))"

text \<open>A file system without block files, in which every file can be written in full.\<close>

definition no_files :: filesys where
  "no_files = \<lparr>files = (\<lambda>n. None), writable = (\<lambda>n. True), room = (\<lambda>n. 1024), opened = []\<rparr>"

text \<open>\<^verbatim>\<open>forth_init\<close> and one call of \<^verbatim>\<open>forth_run\<close> on a program text.\<close>

definition run_text :: "string \<Rightarrow> (int \<times> forth_obj) chk option" where
  "run_text src =
     (case forth_init (bytes_of src) no_files of
        Undefined \<Rightarrow> Some Undefined
      | Ok st \<Rightarrow> forth_run st)"

text \<open>
  What a caller sees of a run: the value returned, the output, the diagnostics, the invalid
  flag, and the accumulator and data stack pointer the run ended with.
\<close>

definition observe ::
  "(int \<times> forth_obj) chk option \<Rightarrow> (int \<times> byte list \<times> string list \<times> bool \<times> cell \<times> int) chk option"
where
  "observe r =
     (case r of
        None \<Rightarrow> None
      | Some Undefined \<Rightarrow> Some Undefined
      | Some (Ok (v, st)) \<Rightarrow> Some (Ok (v, o_out st, o_err st, o_invalid st, l_f st, l_S st)))"

text \<open>
  A small state in which the next instruction is \<open>c\<close>, the accumulator is \<open>b\<close> and the cell
  under it on the data stack is \<open>a\<close>.
\<close>

definition at_opcode :: "cell \<Rightarrow> cell \<Rightarrow> cell \<Rightarrow> forth_obj" where
  "at_opcode c a b =
     (calloc_obj [] no_files)
       \<lparr>o_m := (\<lambda>i. 0)(DICTIONARY := 200, RSTK := 32256, 100 := c, 31745 := a),
        l_x := 100, l_S := 31745, l_I := 35, l_f := b\<rparr>"

subsection \<open>The dictionary as a linked list\<close>

text \<open>The byte address of the name of the entry at \<open>w\<close>: \<^verbatim>\<open>&o->s[m[w + 1]]\<close>.\<close>

definition name_addr :: "mem \<Rightarrow> cell \<Rightarrow> int" where
  "name_addr m w = STROFF + uint (m (uint w + 1))"

text \<open>
  The dictionary as a linked list: \<open>chain m w es\<close> says that the links from \<open>w\<close> pass through
  the entries \<open>es\<close>, most recent first, and then reach the sentinel 1. The header of each entry
  lies below the string store, and its name is a C string that starts after the 32 bytes of the
  token buffer.
\<close>

fun chain :: "mem \<Rightarrow> cell \<Rightarrow> cell list \<Rightarrow> bool" where
  "chain m w [] \<longleftrightarrow> w = 1"
| "chain m w (e # es) \<longleftrightarrow>
     w = e \<and> e \<noteq> 1 \<and> uint e + 1 < STROFF div 2 \<and> 32 \<le> uint (m (uint e + 1))
     \<and> cstr m (name_addr m e) \<noteq> Undefined \<and> chain m (m (uint e)) es"

text \<open>The sentinel has the name offset 0 in cell 2: its name is the token itself.\<close>

definition dictionary_ok :: "mem \<Rightarrow> cell \<Rightarrow> cell list \<Rightarrow> bool" where
  "dictionary_ok m L es \<longleftrightarrow> chain m L es \<and> m 2 = 0"

text \<open>The first entry of the list whose name is \<open>tok\<close>, or the sentinel.\<close>

definition first_match :: "mem \<Rightarrow> byte list \<Rightarrow> cell list \<Rightarrow> cell" where
  "first_match m tok es =
     (case filter (\<lambda>e. cstr m (name_addr m e) = Ok tok) es of [] \<Rightarrow> 1 | e # r \<Rightarrow> e)"

text \<open>The start of the read instruction: \<^verbatim>\<open>m[RSTK]--\<close> and the \<^verbatim>\<open>fscanf\<close> of the token.\<close>

definition read_scan :: "forth_obj \<Rightarrow> (int \<times> forth_obj) chk" where
  "read_scan st0 = fscanf_s STROFF (st0\<lparr>o_m := (o_m st0)(RSTK := o_m st0 RSTK - 1)\<rparr>)"

subsection \<open>Passes of the loop\<close>

text \<open>
  One iteration of the loop of \<^verbatim>\<open>forth_run\<close>: \<open>to_break s s'\<close> follows the switch from the
  label \<^verbatim>\<open>INNER\<close> through every \<^verbatim>\<open>goto INNER\<close> to the next \<^verbatim>\<open>break\<close>, and
  \<open>pass s s'\<close> is the loop head (with \<open>x\<close> not 0) followed by that.
\<close>

inductive to_break :: "forth_obj \<Rightarrow> forth_obj \<Rightarrow> bool" where
  at_break: "switch s = Some (Break s') \<Longrightarrow> to_break s s'"
| at_goto: "switch s = Some (Goto_INNER s1) \<Longrightarrow> to_break s1 s' \<Longrightarrow> to_break s s'"

definition pass :: "forth_obj \<Rightarrow> forth_obj \<Rightarrow> bool" where
  "pass s s' \<longleftrightarrow> (\<exists>s1. for_head s = Ok s1 \<and> l_x s1 \<noteq> 0 \<and> to_break s1 s')"

text \<open>The loop \<^verbatim>\<open>for(;(x = m[I++]);) { ... }\<close> from its head.\<close>

definition for_loop :: "forth_obj \<Rightarrow> (int \<times> forth_obj) chk option" where
  "for_loop st =
     (case for_head st of
        Undefined \<Rightarrow> Some Undefined
      | Ok st' \<Rightarrow> if l_x st' = 0 then Some (Ok (0, st')) else INNER st')"





text \<open>
  The walk of \<^verbatim>\<open>find\<close> for a bounded number of steps: \<open>find_walk n m w\<close> is the entry the
  loop is at after \<open>n\<close> names that differ from the token, and \<open>find_cycle m a b\<close> says that
  the links lead from \<open>a\<close> to \<open>b\<close> and back and that both names differ from the token.
\<close>

definition differs :: "mem \<Rightarrow> cell \<Rightarrow> bool" where
  "differs m w \<longleftrightarrow>
     in_core (uint w + 1) \<and>
     (case strcmp m STROFF (STROFF + uint (m (uint w + 1))) of
        Undefined \<Rightarrow> False
      | Ok c \<Rightarrow> c \<noteq> 0)"

fun find_walk :: "nat \<Rightarrow> mem \<Rightarrow> cell \<Rightarrow> cell option" where
  "find_walk 0 m w = Some w"
| "find_walk (Suc n) m w = (if differs m w then find_walk n m (m (uint w)) else None)"

definition find_cycle :: "mem \<Rightarrow> cell \<Rightarrow> cell \<Rightarrow> bool" where
  "find_cycle m a b \<longleftrightarrow> differs m a \<and> differs m b \<and> m (uint a) = b \<and> m (uint b) = a"

definition walks_into_cycle :: "forth_obj \<Rightarrow> nat \<Rightarrow> cell \<Rightarrow> cell \<Rightarrow> bool" where
  "walks_into_cycle st n a b \<longleftrightarrow>
     find_walk n (o_m st) (o_L st) = Some a \<and> find_cycle (o_m st) a b"

subsection \<open>Initialised objects\<close>

text \<open>The object \<^verbatim>\<open>forth_init\<close> returns for a program text, and the entries of its dictionary.\<close>

definition boot_state :: "string \<Rightarrow> forth_obj" where
  "boot_state src =
     (case forth_init (bytes_of src) no_files of
        Ok st \<Rightarrow> st
      | Undefined \<Rightarrow> calloc_obj [] no_files)"

definition boot_entries :: "cell list" where
  "boot_entries = [141, 137, 133, 129, 125, 121, 117, 113, 109, 105, 101, 97, 93, 89, 85, 81,
     77, 73, 69, 65, 61, 57, 53, 49, 45, 42, 39, 36]"


text \<open>
  The object after \<^verbatim>\<open>forth_init\<close> and one call of \<^verbatim>\<open>forth_run\<close> on a program text,
  with a further text as its input; and an object after the \<^verbatim>\<open>fscanf\<close> of the read
  instruction has stored the next token.
\<close>

definition after_run :: "string \<Rightarrow> string \<Rightarrow> forth_obj" where
  "after_run src inp =
     (case run_text src of
        Some (Ok (r, st)) \<Rightarrow> st\<lparr>o_in := bytes_of inp\<rparr>
      | _ \<Rightarrow> calloc_obj (bytes_of inp) no_files)"

definition scanned :: "forth_obj \<Rightarrow> forth_obj" where
  "scanned st = (case fscanf_s STROFF st of Ok (r, st') \<Rightarrow> st' | Undefined \<Rightarrow> st)"

section \<open>Load and store\<close>

lemma CK_bounds: "0 \<le> CK f \<and> CK f < CORESZ"
proof -
  have "f AND 0x7fff \<le> 0x7fff" by (rule word_and_le1)
  then have "uint (f AND 0x7fff) \<le> uint (0x7fff :: cell)" by (simp add: word_le_def)
  then show ?thesis by (simp add: CK_def)
qed

lemma in_core_CK: "in_core (CK f)"
  using CK_bounds [of f] by (simp add: in_core_def)

lemma switch_LOAD:
  "in_core (uint (l_x st)) \<Longrightarrow> o_m st (uint (l_x st)) = LOAD \<Longrightarrow>
   switch st = Some (brk (op_LOAD (st\<lparr>l_x := l_x st + 1\<rparr>)))"
  by (simp add: switch_def)

lemma switch_STORE:
  "in_core (uint (l_x st)) \<Longrightarrow> o_m st (uint (l_x st)) = STORE \<Longrightarrow>
   switch st = Some (brk (op_STORE (st\<lparr>l_x := l_x st + 1\<rparr>)))"
  by (simp add: switch_def)

lemma op_LOAD_eq: "op_LOAD st = Ok (st\<lparr>l_f := o_m st (CK (l_f st))\<rparr>)"
  by (simp add: op_LOAD_def in_core_CK)

lemma op_STORE_eq:
  "op_STORE st =
     (if in_core (l_S st) \<and> in_core (l_S st - 1) then
        Ok (st\<lparr>o_m := (o_m st)(CK (l_f st) := o_m st (l_S st)),
                l_f := ((o_m st)(CK (l_f st) := o_m st (l_S st))) (l_S st - 1),
                l_S := l_S st - 2\<rparr>)
      else Undefined)"
  by (simp add: op_STORE_def dpop_def in_core_CK)

lemma CK_mod: "CK f = uint f mod CORESZ"
proof -
  have "f AND mask 15 = word_of_int (uint f mod 2 ^ 15)"
    by (rule and_mask_mod_2p)
  then have "f AND 0x7fff = word_of_int (uint f mod 32768)"
    by (simp add: mask_eq_exp_minus_1)
  moreover have "uint (word_of_int (uint f mod 32768) :: cell) = uint f mod 32768"
  proof -
    have "0 \<le> uint f mod 32768" "uint f mod 32768 < 65536"
      by (simp, rule less_trans [OF pos_mod_bound]) simp_all
    then show ?thesis
      by (simp add: uint_word_of_int)
  qed
  ultimately show ?thesis
    by (simp add: CK_def)
qed

text \<open>
  C8, as claimed, fails for the store instruction: \<^verbatim>\<open>m[CK(f)] = *S--; f = *S--;\<close> also
  reads two cells through the data stack pointer, which nothing checks. With the stack pointer
  at cell 0 the second read is \<^verbatim>\<open>m[-1]\<close>, outside the core.
\<close>

theorem store_underflow_counterexample:
  "in_core (CK (l_f ((at_opcode STORE 7 60000)\<lparr>l_S := 0\<rparr>)))
   \<and> \<not> in_core (l_S ((at_opcode STORE 7 60000)\<lparr>l_S := 0\<rparr>) - 1)
   \<and> switch ((at_opcode STORE 7 60000)\<lparr>l_S := 0\<rparr>) = Some UB"
proof -
  have "switch ((at_opcode STORE 7 60000)\<lparr>l_S := 0\<rparr>) =
      Some (brk (op_STORE ((at_opcode STORE 7 60000)\<lparr>l_S := 0, l_x := 101\<rparr>)))"
    by (simp add: switch_def at_opcode_def in_core_def)
  moreover have "brk (op_STORE ((at_opcode STORE 7 60000)\<lparr>l_S := 0, l_x := 101\<rparr>)) = UB"
    by (simp add: op_STORE_eq brk_def in_core_def)
  moreover have "in_core (CK (l_f ((at_opcode STORE 7 60000)\<lparr>l_S := 0\<rparr>)))"
    by (rule in_core_CK)
  moreover have "\<not> in_core (l_S ((at_opcode STORE 7 60000)\<lparr>l_S := 0\<rparr>) - 1)"
    by (simp add: in_core_def)
  ultimately show ?thesis
    by (simp only: simp_thms)
qed

text \<open>
  C8, amended. For every accumulator \<open>f\<close> the index \<open>CK f\<close> is \<open>f\<close> masked to 15 bits,
  \<^verbatim>\<open>f & 0x7fff\<close>, that is \<open>f\<close> modulo 32768, and is a cell of the core. The load instruction
  reads the cell \<open>CK f\<close> into the accumulator and never accesses a cell outside the core. The
  store instruction writes the cell \<open>CK f\<close> and no other cell; the value it writes and the new
  accumulator are popped through the data stack pointer \<open>S\<close>: when \<open>S\<close> and \<open>S - 1\<close> are cells
  of the core, store accesses no cell outside the core, and otherwise it does.
\<close>

theorem load_store_masked:
  assumes "in_core (uint (l_x st))"
    and "o_m st (uint (l_x st)) = LOAD \<or> o_m st (uint (l_x st)) = STORE"
  shows "CK (l_f st) = uint (l_f st AND 0x7fff) \<and> CK (l_f st) = uint (l_f st) mod 32768
    \<and> 0 \<le> CK (l_f st) \<and> CK (l_f st) < 32768 \<and>
    switch st =
      Some (if o_m st (uint (l_x st)) = LOAD then
              Break (st\<lparr>l_x := l_x st + 1, l_f := o_m st (CK (l_f st))\<rparr>)
            else if in_core (l_S st) \<and> in_core (l_S st - 1) then
              Break (st\<lparr>l_x := l_x st + 1,
                        o_m := (o_m st)(CK (l_f st) := o_m st (l_S st)),
                        l_f := ((o_m st)(CK (l_f st) := o_m st (l_S st))) (l_S st - 1),
                        l_S := l_S st - 2\<rparr>)
            else UB)"
proof -
  have "CK (l_f st) = uint (l_f st AND 0x7fff)"
    by (simp add: CK_def)
  moreover have "CK (l_f st) = uint (l_f st) mod 32768"
    by (rule CK_mod)
  moreover have "0 \<le> CK (l_f st) \<and> CK (l_f st) < 32768"
    by (rule CK_bounds)
  moreover from assms have "switch st =
      Some (if o_m st (uint (l_x st)) = LOAD then
              Break (st\<lparr>l_x := l_x st + 1, l_f := o_m st (CK (l_f st))\<rparr>)
            else if in_core (l_S st) \<and> in_core (l_S st - 1) then
              Break (st\<lparr>l_x := l_x st + 1,
                        o_m := (o_m st)(CK (l_f st) := o_m st (l_S st)),
                        l_f := ((o_m st)(CK (l_f st) := o_m st (l_S st))) (l_S st - 1),
                        l_S := l_S st - 2\<rparr>)
            else UB)"
    by (auto simp add: switch_LOAD switch_STORE op_LOAD_eq op_STORE_eq brk_def)
  ultimately show ?thesis by blast
qed

theorem load_store_masked_witness:
  "in_core (uint (l_x (at_opcode STORE 7 60000)))
   \<and> o_m (at_opcode STORE 7 60000) (uint (l_x (at_opcode STORE 7 60000))) = STORE
   \<and> l_f (at_opcode STORE 7 60000) = 60000
   \<and> CK 60000 = 27232
   \<and> switch (at_opcode STORE 7 60000) =
       Some (Break ((at_opcode STORE 7 60000)
         \<lparr>l_x := 101, o_m := (o_m (at_opcode STORE 7 60000))(27232 := 7), l_f := 0,
          l_S := 31743\<rparr>))"
proof -
  have h1: "in_core (uint (l_x (at_opcode STORE 7 60000)))"
    by (simp add: at_opcode_def in_core_def)
  have h2: "o_m (at_opcode STORE 7 60000) (uint (l_x (at_opcode STORE 7 60000))) = STORE"
    by (simp add: at_opcode_def)
  have f: "l_f (at_opcode STORE 7 60000) = 60000"
    by (simp add: at_opcode_def)
  note inst = load_store_masked [OF h1 disjI2, OF h2]
  have "CK (l_f (at_opcode STORE 7 60000)) = uint (l_f (at_opcode STORE 7 60000)) mod 32768"
    by (rule inst [THEN conjunct2, THEN conjunct1])
  then have ck: "CK 60000 = 27232"
    by (simp add: f)
  have "switch (at_opcode STORE 7 60000) =
      Some (if o_m (at_opcode STORE 7 60000) (uint (l_x (at_opcode STORE 7 60000))) = LOAD then
              Break ((at_opcode STORE 7 60000)\<lparr>l_x := l_x (at_opcode STORE 7 60000) + 1,
                l_f := o_m (at_opcode STORE 7 60000) (CK (l_f (at_opcode STORE 7 60000)))\<rparr>)
            else if in_core (l_S (at_opcode STORE 7 60000))
                    \<and> in_core (l_S (at_opcode STORE 7 60000) - 1) then
              Break ((at_opcode STORE 7 60000)\<lparr>l_x := l_x (at_opcode STORE 7 60000) + 1,
                o_m := (o_m (at_opcode STORE 7 60000))
                  (CK (l_f (at_opcode STORE 7 60000)) :=
                     o_m (at_opcode STORE 7 60000) (l_S (at_opcode STORE 7 60000))),
                l_f := ((o_m (at_opcode STORE 7 60000))
                  (CK (l_f (at_opcode STORE 7 60000)) :=
                     o_m (at_opcode STORE 7 60000) (l_S (at_opcode STORE 7 60000))))
                  (l_S (at_opcode STORE 7 60000) - 1),
                l_S := l_S (at_opcode STORE 7 60000) - 2\<rparr>)
            else UB)"
    by (rule inst [THEN conjunct2, THEN conjunct2, THEN conjunct2, THEN conjunct2])
  then have sw: "switch (at_opcode STORE 7 60000) =
       Some (Break ((at_opcode STORE 7 60000)
         \<lparr>l_x := 101, o_m := (o_m (at_opcode STORE 7 60000))(27232 := 7), l_f := 0,
          l_S := 31743\<rparr>))"
    unfolding f ck by (simp add: at_opcode_def in_core_def)
  show ?thesis
    by (intro conjI h1 h2 f ck sw)
qed

section \<open>Emit and print-number\<close>

lemma switch_EMIT:
  "in_core (uint (l_x st)) \<Longrightarrow> o_m st (uint (l_x st)) = EMIT \<Longrightarrow>
   switch st = Some (brk (op_EMIT (st\<lparr>l_x := l_x st + 1\<rparr>)))"
  by (simp add: switch_def)

lemma switch_PNUM:
  "in_core (uint (l_x st)) \<Longrightarrow> o_m st (uint (l_x st)) = PNUM \<Longrightarrow>
   switch st = Some (brk (op_PNUM (st\<lparr>l_x := l_x st + 1\<rparr>)))"
  by (simp add: switch_def)

text \<open>The digits of \<open>udigits\<close> are the positional representation of the number.\<close>

lemma udigits_value: "2 \<le> b \<Longrightarrow> foldl (\<lambda>a d. a * b + d) 0 (udigits b n) = n"
proof (induction b n rule: udigits.induct)
  case (1 b n)
  show ?case
  proof (cases "n < b")
    case True
    then show ?thesis by (simp add: udigits.simps)
  next
    case False
    with "1.prems" have "foldl (\<lambda>a d. a * b + d) 0 (udigits b (n div b)) = n div b"
      by (intro "1.IH") auto
    with False "1.prems" show ?thesis
      by (subst udigits.simps) simp
  qed
qed

lemma udigits_less: "2 \<le> b \<Longrightarrow> d \<in> set (udigits b n) \<Longrightarrow> d < b"
proof (induction b n rule: udigits.induct)
  case (1 b n)
  show ?case
  proof (cases "n < b")
    case True
    with "1.prems" show ?thesis by (simp add: udigits.simps)
  next
    case False
    with "1.prems" have "d \<in> set (udigits b (n div b)) \<or> d = n mod b"
      by (subst (asm) udigits.simps) auto
    with False "1.prems" "1.IH" show ?thesis
      by auto
  qed
qed

text \<open>
  C10. The emit and print-number instructions consume the value they write: the output grows
  by the low byte of the accumulator (emit), or by its digits in base 16 when the cell
  \<open>HEX\<close> is not 0 and in base 10 otherwise (print-number); then \<^verbatim>\<open>f = *S--\<close> pops the next
  element of the data stack into the accumulator and the stack pointer goes down by one.
\<close>

theorem emit_pnum_consume:
  assumes "in_core (uint (l_x st))"
    and "o_m st (uint (l_x st)) = EMIT \<or> o_m st (uint (l_x st)) = PNUM"
    and "in_core (l_S st)"
  shows "switch st =
      Some (Break (st\<lparr>l_x := l_x st + 1,
        o_out := o_out st @
          (if o_m st (uint (l_x st)) = EMIT then [ucast (l_f st)]
           else bytes_of ((if o_m st HEX \<noteq> 0 then fmt_X else fmt_u) (unat (l_f st)))),
        l_f := o_m st (l_S st),
        l_S := l_S st - 1\<rparr>))"
  using assms
  by (auto simp add: switch_EMIT switch_PNUM op_EMIT_def op_PNUM_def dpop_def brk_def)

theorem emit_pnum_consume_witness:
  "in_core (uint (l_x (at_opcode PNUM 7 1234)))
   \<and> o_m (at_opcode PNUM 7 1234) (uint (l_x (at_opcode PNUM 7 1234))) = PNUM
   \<and> in_core (l_S (at_opcode PNUM 7 1234))
   \<and> switch (at_opcode PNUM 7 1234) =
       Some (Break ((at_opcode PNUM 7 1234)
         \<lparr>l_x := 101, o_out := bytes_of ''1234'', l_f := 7, l_S := 31744\<rparr>))"
proof -
  have h1: "in_core (uint (l_x (at_opcode PNUM 7 1234)))"
    by (simp add: at_opcode_def in_core_def)
  have h2: "o_m (at_opcode PNUM 7 1234) (uint (l_x (at_opcode PNUM 7 1234))) = PNUM"
    by (simp add: at_opcode_def)
  have h3: "in_core (l_S (at_opcode PNUM 7 1234))"
    by (simp add: at_opcode_def in_core_def)
  from emit_pnum_consume [OF h1 disjI2 h3, OF h2]
  have "switch (at_opcode PNUM 7 1234) =
       Some (Break ((at_opcode PNUM 7 1234)
         \<lparr>l_x := 101, o_out := bytes_of ''1234'', l_f := 7, l_S := 31744\<rparr>))"
    by (simp add: at_opcode_def calloc_obj_def fmt_u_def bytes_of_def udigits.simps)
  with h1 h2 h3 show ?thesis by blast
qed

section \<open>The invalid flag\<close>

lemma forth_run_invalid:
  "o_invalid st \<Longrightarrow>
   forth_run st = Some (Ok (- 1, st\<lparr>o_err := o_err st @ [warn_text ''invalid obj'' 139]\<rparr>))"
  by (simp add: forth_run_def WARN_def)

text \<open>The two places that set the flag: an unknown instruction, and a definition without a name.\<close>

lemma unknown_instruction_latches:
  assumes "in_core (uint (l_x st))" and "BLOAD < o_m st (uint (l_x st))"
  shows "switch st =
    Some (Return (- 1) (st\<lparr>l_x := l_x st + 1,
                           o_err := o_err st @ [warn_text ''unknown instruction'' 205],
                           o_invalid := True\<rparr>))"
proof -
  have "o_m st (uint (l_x st)) \<noteq> c" if "c \<le> BLOAD" for c
    using that assms(2) by auto
  then show ?thesis
    using assms(1) by (simp add: switch_def op_default_def WARN_def)
qed

lemma define_without_name_latches:
  assumes "compile_word COMPILE None (st\<lparr>o_m := (o_m st)(STATE := 1)\<rparr>) = Ok (r, st1)"
    and "r < 0"
  shows "op_DEFINE st = Return (- 1) (st1\<lparr>o_invalid := True\<rparr>)"
  using assms by (simp add: op_DEFINE_def)

text \<open>
  C4. The invalid flag is a one-way latch: on an object whose flag is set, every further call
  of \<^verbatim>\<open>forth_run\<close> returns -1 at once, the flag stays set and no cell of the core changes.
\<close>

theorem invalid_latch:
  assumes "o_invalid st"
  shows "\<exists>st'. run_calls n st = Some (Ok (replicate n (- 1), st'))
          \<and> o_invalid st' \<and> o_m st' = o_m st"
  using assms
proof (induction n arbitrary: st)
  case 0
  then show ?case by simp
next
  case (Suc n)
  let ?st1 = "st\<lparr>o_err := o_err st @ [warn_text ''invalid obj'' 139]\<rparr>"
  from Suc.prems have run: "forth_run st = Some (Ok (- 1, ?st1))"
    by (rule forth_run_invalid)
  from Suc.prems have "o_invalid ?st1" by simp
  from Suc.IH [OF this] obtain st' where
    "run_calls n ?st1 = Some (Ok (replicate n (- 1), st'))" "o_invalid st'" "o_m st' = o_m ?st1"
    by blast
  with run show ?case by simp
qed

theorem invalid_latch_witness:
  "o_invalid ((at_opcode 99 0 0)\<lparr>o_invalid := True\<rparr>)
   \<and> (\<exists>st'. run_calls 3 ((at_opcode 99 0 0)\<lparr>o_invalid := True\<rparr>) = Some (Ok ([- 1, - 1, - 1], st'))
          \<and> o_invalid st' \<and> o_m st' = o_m (at_opcode 99 0 0))"
proof -
  have h: "o_invalid ((at_opcode 99 0 0)\<lparr>o_invalid := True\<rparr>)"
    by simp
  from invalid_latch [OF h, of 3] show ?thesis
    by (simp add: numeral_3_eq_3)
qed

section \<open>Divide and less-than\<close>

lemma switch_DIV:
  "in_core (uint (l_x st)) \<Longrightarrow> o_m st (uint (l_x st)) = DIV \<Longrightarrow>
   switch st = Some (brk (op_DIV (st\<lparr>l_x := l_x st + 1\<rparr>)))"
  by (simp add: switch_def)

lemma switch_LESS:
  "in_core (uint (l_x st)) \<Longrightarrow> o_m st (uint (l_x st)) = LESS \<Longrightarrow>
   switch st = Some (brk (op_LESS (st\<lparr>l_x := l_x st + 1\<rparr>)))"
  by (simp add: switch_def)

text \<open>With a divisor that is not 0, divide pops the dividend and leaves the quotient.\<close>

lemma divide_nonzero:
  assumes "in_core (uint (l_x st))" and "o_m st (uint (l_x st)) = DIV"
    and "l_f st \<noteq> 0" and "in_core (l_S st)"
  shows "switch st =
    Some (Break (st\<lparr>l_x := l_x st + 1, l_f := o_m st (l_S st) div l_f st, l_S := l_S st - 1\<rparr>))"
  using assms by (simp add: switch_DIV op_DIV_def dpop_def brk_def)

lemma unat_divide: "unat ((a :: cell) div b) = unat a div unat b"
  by (simp add: unat_div)

text \<open>
  With the divisor 0, the accumulator receives the value of \<^verbatim>\<open>WARN("div 0")\<close>, the number of
  characters of the diagnostic, and nothing is popped.
\<close>

lemma divide_zero:
  assumes "in_core (uint (l_x st))" and "o_m st (uint (l_x st)) = DIV" and "l_f st = 0"
  shows "switch st =
    Some (Break (st\<lparr>l_x := l_x st + 1, o_err := o_err st @ [warn_text ''div 0'' 184],
                    l_f := word_of_int (int (length (warn_text ''div 0'' 184)))\<rparr>))"
  using assms by (simp add: switch_DIV op_DIV_def WARN_def brk_def)

lemma warn_div_0_length: "length (warn_text ''div 0'' 184) = 30"
  by (simp add: warn_text_def FILE_NAME_def fmt_u_def udigits.simps)

text \<open>The instruction named less-than leaves 1 when the second value is greater than the top.\<close>

lemma less_is_greater:
  assumes "in_core (uint (l_x st))" and "o_m st (uint (l_x st)) = LESS" and "in_core (l_S st)"
  shows "switch st =
    Some (Break (st\<lparr>l_x := l_x st + 1,
                    l_f := (if l_f st < o_m st (l_S st) then 1 else 0),
                    l_S := l_S st - 1\<rparr>))"
  using assms by (simp add: switch_LESS op_LESS_def dpop_def brk_def)

text \<open>
  C3. The program \<^verbatim>\<open>10 0 / .\<close> divides by 0: the diagnostic is written, the flag stays
  unset and the run goes on, but the accumulator is then 30, the length of the diagnostic,
  which the program prints; the dividend 10 is still on the stack.
\<close>

theorem divide_by_zero_run:
  "observe (run_text ''10 0 / .'')
     = Some (Ok (0, bytes_of ''30'', [warn_text ''div 0'' 184], False, 10, 31745))"
  by code_simp

text \<open>
  C6. The program \<^verbatim>\<open>1 2 < .\<close> prints 0 although 1 is less than 2: the instruction
  compares with \<^verbatim>\<open>>\<close>.
\<close>

theorem less_than_run:
  "observe (run_text ''1 2 < .'') = Some (Ok (0, bytes_of ''0'', [], False, 0, 31744))"
  by code_simp

section \<open>Bytes written to the core\<close>

lemma lo_set_lo: "lo_byte (set_lo c b) = b"
  unfolding lo_byte_def set_lo_def
  by (rule bit_word_eqI) (auto simp add: bit_simps)

lemma hi_set_hi: "hi_byte (set_hi c b) = b"
  unfolding hi_byte_def set_hi_def
  by (rule bit_word_eqI) (auto simp add: bit_simps)

lemma lo_set_hi: "lo_byte (set_hi c b) = lo_byte c"
  unfolding lo_byte_def set_hi_def
  by (rule bit_word_eqI) (auto simp add: bit_simps)

lemma hi_set_lo: "hi_byte (set_lo c b) = hi_byte c"
  unfolding hi_byte_def set_lo_def
  by (rule bit_word_eqI) (auto simp add: bit_simps dest: bit_imp_le_length)

lemma byte_at_set_byte:
  "byte_at (set_byte m a c) b = (if b = a then c else byte_at m b)"
proof (cases "b = a")
  case True
  then show ?thesis
    by (simp add: byte_at_def set_byte_def lo_set_lo hi_set_hi)
next
  case False
  then have "b div 2 = a div 2 \<Longrightarrow> even b \<noteq> even a"
    by presburger
  with False show ?thesis
    by (auto simp add: byte_at_def set_byte_def lo_set_hi hi_set_lo)
qed

lemma set_byte_other_cell: "i \<noteq> a div 2 \<Longrightarrow> set_byte m a c i = m i"
  by (simp add: set_byte_def)

lemma store_bytes_Ok:
  "0 \<le> a \<Longrightarrow> a + int (length bs) \<le> 2 * CORESZ \<Longrightarrow> \<exists>m'. store_bytes m a bs = Ok m'"
  by (induction bs arbitrary: m a) (auto simp add: in_bytes_def)

lemma store_bytes_byte_at:
  "store_bytes m a bs = Ok m' \<Longrightarrow>
   byte_at m' b = (if a \<le> b \<and> b < a + int (length bs) then bs ! nat (b - a) else byte_at m b)"
proof (induction bs arbitrary: m a)
  case Nil
  then show ?case by auto
next
  case (Cons c cs)
  from Cons.prems have st: "store_bytes (set_byte m a c) (a + 1) cs = Ok m'"
    by (simp split: if_splits)
  have "byte_at m' b =
      (if a + 1 \<le> b \<and> b < a + 1 + int (length cs) then cs ! nat (b - (a + 1))
       else byte_at (set_byte m a c) b)"
    by (rule Cons.IH [OF st])
  moreover have "nat (b - a) = Suc (nat (b - (a + 1)))" if "a + 1 \<le> b"
    using that by simp
  ultimately show ?case
    by (auto simp add: byte_at_set_byte)
qed

lemma store_bytes_other_cell:
  "store_bytes m a bs = Ok m' \<Longrightarrow> i < a div 2 \<or> (a + int (length bs) - 1) div 2 < i \<Longrightarrow>
   m' i = m i"
proof (induction bs arbitrary: m a)
  case Nil
  then show ?case by simp
next
  case (Cons c cs)
  from Cons.prems(1) have st: "store_bytes (set_byte m a c) (a + 1) cs = Ok m'"
    by (simp split: if_splits)
  from Cons.prems(2) have "i < (a + 1) div 2 \<or> (a + 1 + int (length cs) - 1) div 2 < i"
    by auto
  from Cons.IH [OF st this] have "m' i = set_byte m a c i" .
  moreover from Cons.prems(2) have "i \<noteq> a div 2"
    by auto
  ultimately show ?case
    by (simp add: set_byte_other_cell)
qed

lemma load_bytes_store_bytes:
  assumes "store_bytes m a bs = Ok m'"
  shows "load_bytes m' a (length bs) = bs"
proof (rule nth_equalityI)
  show "length (load_bytes m' a (length bs)) = length bs"
    by (simp add: load_bytes_def)
next
  fix i assume "i < length (load_bytes m' a (length bs))"
  then have i: "i < length bs" by (simp add: load_bytes_def)
  then show "load_bytes m' a (length bs) ! i = bs ! i"
    by (simp add: load_bytes_def store_bytes_byte_at [OF assms])
qed

section \<open>Block input and output\<close>

lemma udigits_length: "2 \<le> b \<Longrightarrow> 0 < k \<Longrightarrow> n < b ^ k \<Longrightarrow> length (udigits b n) \<le> k"
proof (induction b n arbitrary: k rule: udigits.induct)
  case (1 b n)
  show ?case
  proof (cases "n < b")
    case True
    with "1.prems" show ?thesis by (simp add: udigits.simps)
  next
    case False
    with "1.prems" have k: "1 < k"
      by (cases "k = 1") auto
    then obtain j where j: "k = Suc j" "0 < j"
      by (cases k) auto
    from "1.prems" j have "n div b < b ^ j"
      by (simp add: less_mult_imp_div_less mult.commute)
    with False "1.prems" j have "length (udigits b (n div b)) \<le> j"
      by (intro "1.IH") auto
    with False "1.prems" j show ?thesis
      by (subst udigits.simps) simp
  qed
qed

lemma udigits_nonempty: "udigits b n \<noteq> []"
  by (subst udigits.simps) simp

text \<open>The name of a block: four hexadecimal digits and \<^verbatim>\<open>.blk\<close>.\<close>

lemma fmt_04x_length: "length (fmt_04x (unat (ident :: cell))) = 4"
proof -
  have "unat ident < 2 ^ 16"
    using unsigned_less [of ident] by simp
  then have "unat ident < 16 ^ 4" by simp
  then have "length (udigits 16 (unat ident)) \<le> 4"
    by (intro udigits_length) auto
  then show ?thesis
    by (simp add: fmt_04x_def Let_def)
qed

lemma blockio_invalid:
  assumes "CORESZ - BLKSZ < uint poffset \<or> \<not> (rw = CHR ''w'' \<or> rw = CHR ''r'')"
  shows "blockio poffset ident rw st =
           Ok (- 1, st\<lparr>o_err := o_err st @ [warn_text ''invalid address or mode'' 67]\<rparr>)"
  using assms by (auto simp add: blockio_def WARN_def)

lemma blockio_not_opened:
  assumes "uint poffset \<le> CORESZ - BLKSZ"
    and "rw = CHR ''r'' \<and> files (o_fs st) (fmt_04x (unat ident) @ ''.blk'') = None
         \<or> rw = CHR ''w'' \<and> \<not> writable (o_fs st) (fmt_04x (unat ident) @ ''.blk'')"
  shows "blockio poffset ident rw st =
           Ok (- 1, st\<lparr>o_err := o_err st @ [warn_text ''could not open file'' 70]\<rparr>)"
  using assms by (auto simp add: blockio_def WARN_def fopen_def Let_def)

lemma blockio_write:
  assumes "uint poffset \<le> CORESZ - BLKSZ"
    and "writable (o_fs st) (fmt_04x (unat ident) @ ''.blk'')"
  shows "blockio poffset ident CHR ''w'' st =
           Ok (if 1024 \<le> room (o_fs st) (fmt_04x (unat ident) @ ''.blk'') then 0 else - 1,
               st\<lparr>o_fs := (o_fs st)
                 \<lparr>files := (files (o_fs st))(fmt_04x (unat ident) @ ''.blk'' \<mapsto>
                     take (room (o_fs st) (fmt_04x (unat ident) @ ''.blk''))
                       (load_bytes (o_m st) (uint poffset) 1024)),
                  opened := opened (o_fs st) @ [fmt_04x (unat ident) @ ''.blk'']\<rparr>\<rparr>)"
  using assms
  by (auto simp add: blockio_def fopen_def fwrite_def Let_def load_bytes_def min_def)

lemma blockio_read:
  assumes "uint poffset \<le> CORESZ - BLKSZ"
    and "files (o_fs st) (fmt_04x (unat ident) @ ''.blk'') = Some bs"
  shows "\<exists>m'. store_bytes (o_m st) (uint poffset) (take 1024 bs) = Ok m' \<and>
           blockio poffset ident CHR ''r'' st =
             Ok (if 1024 \<le> length bs then 0 else - 1,
                 st\<lparr>o_fs := (o_fs st)
                      \<lparr>opened := opened (o_fs st) @ [fmt_04x (unat ident) @ ''.blk'']\<rparr>,
                    o_m := m'\<rparr>)"
proof -
  from assms(1) have "uint poffset + int (length (take 1024 bs)) \<le> 2 * CORESZ"
    by simp
  with store_bytes_Ok [of "uint poffset" "take 1024 bs" "o_m st"]
  obtain m' where m': "store_bytes (o_m st) (uint poffset) (take 1024 bs) = Ok m'"
    by auto
  with assms show ?thesis
    by (auto simp add: blockio_def fopen_def fread_def Let_def min_def)
qed

lemma switch_BSAVE:
  "in_core (uint (l_x st)) \<Longrightarrow> o_m st (uint (l_x st)) = BSAVE \<Longrightarrow>
   switch st = Some (brk (op_BSAVE (st\<lparr>l_x := l_x st + 1\<rparr>)))"
  by (simp add: switch_def)

lemma switch_BLOAD:
  "in_core (uint (l_x st)) \<Longrightarrow> o_m st (uint (l_x st)) = BLOAD \<Longrightarrow>
   switch st = Some (brk (op_BLOAD (st\<lparr>l_x := l_x st + 1\<rparr>)))"
  by (simp add: switch_def)

text \<open>Whatever its arguments, \<^verbatim>\<open>blockio\<close> returns 0 or -1 and leaves the invalid flag alone.\<close>

lemma blockio_total:
  "\<exists>r st'. blockio poffset ident rw st = Ok (r, st') \<and> (r = 0 \<or> r = - 1)
      \<and> o_invalid st' = o_invalid st"
proof (cases "CORESZ - BLKSZ < uint poffset \<or> \<not> (rw = CHR ''w'' \<or> rw = CHR ''r'')")
  case True
  then show ?thesis by (simp add: blockio_invalid)
next
  case valid: False
  then have off: "uint poffset \<le> CORESZ - BLKSZ" by simp
  let ?name = "fmt_04x (unat ident) @ ''.blk''"
  show ?thesis
  proof (cases "rw = CHR ''w''")
    case True
    then show ?thesis
      using blockio_write [OF off, of st ident] blockio_not_opened [OF off, of rw st ident]
      by (cases "writable (o_fs st) ?name") auto
  next
    case False
    with valid have r: "rw = CHR ''r''" by simp
    show ?thesis
    proof (cases "files (o_fs st) ?name")
      case None
      with r blockio_not_opened [OF off, of rw st ident] show ?thesis by simp
    next
      case (Some bs)
      from blockio_read [OF off Some] r show ?thesis by auto
    qed
  qed
qed

text \<open>
  C5, as claimed, fails at the offset \<open>CORESZ - BLKSZ = 31744\<close>: it lies outside the half-open
  interval \<open>[0, CORESZ - BLKSZ)\<close>, yet \<^verbatim>\<open>blockio\<close> accepts it (the test is
  \<^verbatim>\<open>poffset > (CORESZ - BLKSZ)\<close>), opens \<^verbatim>\<open>0001.blk\<close>, writes 1024 bytes and returns 0.
\<close>

theorem blockio_boundary_counterexample:
  "\<not> uint (31744 :: cell) < CORESZ - BLKSZ \<and>
   blockio 31744 1 CHR ''w'' (at_opcode BSAVE 31744 1) =
     Ok (0, (at_opcode BSAVE 31744 1)
       \<lparr>o_fs := no_files
          \<lparr>files := (files no_files)(''0001.blk'' \<mapsto>
             load_bytes (o_m (at_opcode BSAVE 31744 1)) 31744 1024),
           opened := [''0001.blk'']\<rparr>\<rparr>)"
proof -
  have name: "fmt_04x (Suc 0) = ''0001''"
    by (simp add: fmt_04x_def udigits.simps numeral_3_eq_3)
  have fs: "o_fs (at_opcode BSAVE 31744 1) = no_files"
    by (simp add: at_opcode_def calloc_obj_def)
  have "blockio 31744 1 CHR ''w'' (at_opcode BSAVE 31744 1) =
     Ok (0, (at_opcode BSAVE 31744 1)
       \<lparr>o_fs := no_files
          \<lparr>files := (files no_files)(''0001.blk'' \<mapsto>
             load_bytes (o_m (at_opcode BSAVE 31744 1)) 31744 1024),
           opened := [''0001.blk'']\<rparr>\<rparr>)"
    using blockio_write [of 31744 "at_opcode BSAVE 31744 1" 1]
    by (simp add: name fs) (simp add: no_files_def load_bytes_def)
  then show ?thesis by simp
qed

text \<open>
  C5, amended. \<^verbatim>\<open>blockio\<close> returns -1 without opening a block when the offset is greater
  than \<open>CORESZ - BLKSZ\<close> (it lies outside the closed interval \<open>[0, CORESZ - BLKSZ]\<close>) or the
  mode is neither read nor write, and also when the block cannot be opened. Otherwise it opens
  the block named by the four hexadecimal digits of the id and \<^verbatim>\<open>.blk\<close> and transfers up to
  1024 bytes between the block and the bytes of the core from the offset on, and returns 0
  exactly when all 1024 bytes were transferred and -1 otherwise. It never sets the invalid
  flag: the block-save and block-load instructions store the status in the accumulator and
  go on.
\<close>

theorem blockio_amended:
  fixes poffset ident :: cell
  shows
  "(CORESZ - BLKSZ < uint poffset \<or> \<not> (rw = CHR ''w'' \<or> rw = CHR ''r'') \<longrightarrow>
      blockio poffset ident rw st =
        Ok (- 1, st\<lparr>o_err := o_err st @ [warn_text ''invalid address or mode'' 67]\<rparr>))
   \<and> (uint poffset \<le> CORESZ - BLKSZ \<and>
        (rw = CHR ''r'' \<and> files (o_fs st) (fmt_04x (unat ident) @ ''.blk'') = None
         \<or> rw = CHR ''w'' \<and> \<not> writable (o_fs st) (fmt_04x (unat ident) @ ''.blk'')) \<longrightarrow>
      blockio poffset ident rw st =
        Ok (- 1, st\<lparr>o_err := o_err st @ [warn_text ''could not open file'' 70]\<rparr>))
   \<and> (uint poffset \<le> CORESZ - BLKSZ \<and> writable (o_fs st) (fmt_04x (unat ident) @ ''.blk'') \<longrightarrow>
      blockio poffset ident CHR ''w'' st =
        Ok (if 1024 \<le> room (o_fs st) (fmt_04x (unat ident) @ ''.blk'') then 0 else - 1,
            st\<lparr>o_fs := (o_fs st)
              \<lparr>files := (files (o_fs st))(fmt_04x (unat ident) @ ''.blk'' \<mapsto>
                  take (room (o_fs st) (fmt_04x (unat ident) @ ''.blk''))
                    (load_bytes (o_m st) (uint poffset) 1024)),
               opened := opened (o_fs st) @ [fmt_04x (unat ident) @ ''.blk'']\<rparr>\<rparr>))
   \<and> (\<forall>bs. uint poffset \<le> CORESZ - BLKSZ
          \<and> files (o_fs st) (fmt_04x (unat ident) @ ''.blk'') = Some bs \<longrightarrow>
      (\<exists>m'. blockio poffset ident CHR ''r'' st =
          Ok (if 1024 \<le> length bs then 0 else - 1,
              st\<lparr>o_fs := (o_fs st)
                   \<lparr>opened := opened (o_fs st) @ [fmt_04x (unat ident) @ ''.blk'']\<rparr>,
                 o_m := m'\<rparr>)
        \<and> load_bytes m' (uint poffset) (min 1024 (length bs)) = take 1024 bs
        \<and> (\<forall>b. b < uint poffset \<or> uint poffset + int (min 1024 (length bs)) \<le> b
              \<longrightarrow> byte_at m' b = byte_at (o_m st) b)))
   \<and> length (fmt_04x (unat ident)) = 4
   \<and> (\<exists>r st'. blockio poffset ident rw st = Ok (r, st') \<and> (r = 0 \<or> r = - 1)
          \<and> o_invalid st' = o_invalid st)
   \<and> (in_core (uint (l_x st)) \<and> in_core (l_S st)
        \<and> (o_m st (uint (l_x st)) = BSAVE \<or> o_m st (uint (l_x st)) = BLOAD) \<longrightarrow>
      (\<exists>r st'. blockio (o_m st (l_S st)) (l_f st)
                  (if o_m st (uint (l_x st)) = BSAVE then CHR ''w'' else CHR ''r'')
                  (st\<lparr>l_x := l_x st + 1, l_S := l_S st - 1\<rparr>) = Ok (r, st')
          \<and> (r = 0 \<or> r = - 1)
          \<and> o_invalid st' = o_invalid st
          \<and> switch st = Some (Break (st'\<lparr>l_f := word_of_int r\<rparr>))))"
proof (intro conjI impI allI)
  assume "CORESZ - BLKSZ < uint poffset \<or> \<not> (rw = CHR ''w'' \<or> rw = CHR ''r'')"
  then show "blockio poffset ident rw st =
        Ok (- 1, st\<lparr>o_err := o_err st @ [warn_text ''invalid address or mode'' 67]\<rparr>)"
    by (rule blockio_invalid)
next
  assume "uint poffset \<le> CORESZ - BLKSZ \<and>
        (rw = CHR ''r'' \<and> files (o_fs st) (fmt_04x (unat ident) @ ''.blk'') = None
         \<or> rw = CHR ''w'' \<and> \<not> writable (o_fs st) (fmt_04x (unat ident) @ ''.blk''))"
  then show "blockio poffset ident rw st =
        Ok (- 1, st\<lparr>o_err := o_err st @ [warn_text ''could not open file'' 70]\<rparr>)"
    by (intro blockio_not_opened) auto
next
  assume "uint poffset \<le> CORESZ - BLKSZ \<and> writable (o_fs st) (fmt_04x (unat ident) @ ''.blk'')"
  then show "blockio poffset ident CHR ''w'' st =
        Ok (if 1024 \<le> room (o_fs st) (fmt_04x (unat ident) @ ''.blk'') then 0 else - 1,
            st\<lparr>o_fs := (o_fs st)
              \<lparr>files := (files (o_fs st))(fmt_04x (unat ident) @ ''.blk'' \<mapsto>
                  take (room (o_fs st) (fmt_04x (unat ident) @ ''.blk''))
                    (load_bytes (o_m st) (uint poffset) 1024)),
               opened := opened (o_fs st) @ [fmt_04x (unat ident) @ ''.blk'']\<rparr>\<rparr>)"
    by (intro blockio_write) auto
next
  fix bs
  assume a: "uint poffset \<le> CORESZ - BLKSZ
          \<and> files (o_fs st) (fmt_04x (unat ident) @ ''.blk'') = Some bs"
  from blockio_read [of poffset st ident bs] a obtain m' where
    st: "store_bytes (o_m st) (uint poffset) (take 1024 bs) = Ok m'" and
    io: "blockio poffset ident CHR ''r'' st =
          Ok (if 1024 \<le> length bs then 0 else - 1,
              st\<lparr>o_fs := (o_fs st)
                   \<lparr>opened := opened (o_fs st) @ [fmt_04x (unat ident) @ ''.blk'']\<rparr>,
                 o_m := m'\<rparr>)"
    by auto
  have len: "length (take 1024 bs) = min 1024 (length bs)"
    by (simp add: min.commute)
  have "load_bytes m' (uint poffset) (min 1024 (length bs)) = take 1024 bs"
    using load_bytes_store_bytes [OF st] by (simp only: len)
  moreover have "byte_at m' b = byte_at (o_m st) b"
    if "b < uint poffset \<or> uint poffset + int (min 1024 (length bs)) \<le> b" for b
    using that store_bytes_byte_at [OF st, of b] by (auto simp add: min.commute)
  ultimately show "\<exists>m'. blockio poffset ident CHR ''r'' st =
          Ok (if 1024 \<le> length bs then 0 else - 1,
              st\<lparr>o_fs := (o_fs st)
                   \<lparr>opened := opened (o_fs st) @ [fmt_04x (unat ident) @ ''.blk'']\<rparr>,
                 o_m := m'\<rparr>)
        \<and> load_bytes m' (uint poffset) (min 1024 (length bs)) = take 1024 bs
        \<and> (\<forall>b. b < uint poffset \<or> uint poffset + int (min 1024 (length bs)) \<le> b
              \<longrightarrow> byte_at m' b = byte_at (o_m st) b)"
    using io by blast
next
  show "length (fmt_04x (unat ident)) = 4"
    by (rule fmt_04x_length)
next
  show "\<exists>r st'. blockio poffset ident rw st = Ok (r, st') \<and> (r = 0 \<or> r = - 1)
          \<and> o_invalid st' = o_invalid st"
    by (rule blockio_total)
next
  assume a: "in_core (uint (l_x st)) \<and> in_core (l_S st)
        \<and> (o_m st (uint (l_x st)) = BSAVE \<or> o_m st (uint (l_x st)) = BLOAD)"
  let ?rw = "if o_m st (uint (l_x st)) = BSAVE then CHR ''w'' else CHR ''r''"
  let ?st1 = "st\<lparr>l_x := l_x st + 1, l_S := l_S st - 1\<rparr>"
  from blockio_total [of "o_m st (l_S st)" "l_f st" ?rw ?st1] obtain r st' where
    io: "blockio (o_m st (l_S st)) (l_f st) ?rw ?st1 = Ok (r, st')" and
    r: "r = 0 \<or> r = - 1" and inv: "o_invalid st' = o_invalid st"
    by auto
  from a io have "switch st = Some (Break (st'\<lparr>l_f := word_of_int r\<rparr>))"
    by (auto simp add: switch_BSAVE switch_BLOAD op_BSAVE_def op_BLOAD_def dpop_def brk_def)
  with io r inv show "\<exists>r st'. blockio (o_m st (l_S st)) (l_f st) ?rw ?st1 = Ok (r, st')
          \<and> (r = 0 \<or> r = - 1)
          \<and> o_invalid st' = o_invalid st
          \<and> switch st = Some (Break (st'\<lparr>l_f := word_of_int r\<rparr>))"
    by blast
qed

theorem blockio_amended_witness:
  "CORESZ - BLKSZ < uint (31745 :: cell)
   \<and> blockio 31745 1 CHR ''w'' (at_opcode BSAVE 31745 1) =
       Ok (- 1, (at_opcode BSAVE 31745 1)
         \<lparr>o_err := [warn_text ''invalid address or mode'' 67]\<rparr>)
   \<and> o_fs (at_opcode BSAVE 31745 1) = no_files
   \<and> in_core (uint (l_x (at_opcode BSAVE 31745 1))) \<and> in_core (l_S (at_opcode BSAVE 31745 1))
   \<and> o_m (at_opcode BSAVE 31745 1) (uint (l_x (at_opcode BSAVE 31745 1))) = BSAVE
   \<and> switch (at_opcode BSAVE 31745 1) =
       Some (Break ((at_opcode BSAVE 31745 1)
         \<lparr>l_x := 101, l_S := 31744, l_f := 65535,
          o_err := [warn_text ''invalid address or mode'' 67]\<rparr>))"
proof -
  let ?st = "at_opcode BSAVE 31745 1"
  have h1: "CORESZ - BLKSZ < uint (31745 :: cell) \<or> \<not> (CHR ''w'' = CHR ''w'' \<or> CHR ''w'' = CHR ''r'')"
    by simp
  have h2: "in_core (uint (l_x ?st)) \<and> in_core (l_S ?st)
        \<and> (o_m ?st (uint (l_x ?st)) = BSAVE \<or> o_m ?st (uint (l_x ?st)) = BLOAD)"
    by (simp add: at_opcode_def in_core_def)
  have fs: "o_fs ?st = no_files"
    by (simp add: at_opcode_def calloc_obj_def)
  have io: "blockio 31745 1 CHR ''w'' ?st =
       Ok (- 1, ?st\<lparr>o_err := o_err ?st @ [warn_text ''invalid address or mode'' 67]\<rparr>)"
    by (rule blockio_amended [where poffset = 31745 and rw = "CHR ''w''" and st = ?st
          and ident = 1, THEN conjunct1, THEN mp, OF h1])
  have "\<exists>r st'. blockio (o_m ?st (l_S ?st)) (l_f ?st)
          (if o_m ?st (uint (l_x ?st)) = BSAVE then CHR ''w'' else CHR ''r'')
          (?st\<lparr>l_x := l_x ?st + 1, l_S := l_S ?st - 1\<rparr>) = Ok (r, st')
        \<and> (r = 0 \<or> r = - 1)
        \<and> o_invalid st' = o_invalid ?st
        \<and> switch ?st = Some (Break (st'\<lparr>l_f := word_of_int r\<rparr>))"
    by (rule blockio_amended [where st = ?st, THEN conjunct2, THEN conjunct2, THEN conjunct2,
          THEN conjunct2, THEN conjunct2, THEN conjunct2, THEN mp, OF h2])
  then obtain r st' where
    "blockio (o_m ?st (l_S ?st)) (l_f ?st)
        (if o_m ?st (uint (l_x ?st)) = BSAVE then CHR ''w'' else CHR ''r'')
        (?st\<lparr>l_x := l_x ?st + 1, l_S := l_S ?st - 1\<rparr>) = Ok (r, st')"
    "switch ?st = Some (Break (st'\<lparr>l_f := word_of_int r\<rparr>))"
    by blast
  then have sw: "switch ?st =
       Some (Break (?st\<lparr>l_x := 101, l_S := 31744, l_f := 65535,
          o_err := [warn_text ''invalid address or mode'' 67]\<rparr>))"
    by (auto simp add: at_opcode_def calloc_obj_def blockio_invalid)
  have io': "blockio 31745 1 CHR ''w'' ?st =
       Ok (- 1, ?st\<lparr>o_err := [warn_text ''invalid address or mode'' 67]\<rparr>)"
    using io by (simp add: at_opcode_def calloc_obj_def)
  have h1': "CORESZ - BLKSZ < uint (31745 :: cell)" by simp
  have h2': "in_core (uint (l_x ?st))" "in_core (l_S ?st)" "o_m ?st (uint (l_x ?st)) = BSAVE"
    by (simp_all add: at_opcode_def in_core_def)
  show ?thesis
    by (intro conjI h1' io' fs h2' sw)
qed

section \<open>The name resolver\<close>

lemma cstr_Ok_cases:
  assumes "cstr m a = Ok u"
  shows "in_bytes a \<and>
    (if byte_at m a = 0 then u = []
     else \<exists>u'. u = byte_at m a # u' \<and> cstr m (a + 1) = Ok u')"
proof -
  from assms have ib: "in_bytes a"
    by (subst (asm) cstr.simps) (simp split: if_splits)
  show ?thesis
  proof (cases "byte_at m a = 0")
    case True
    with assms ib show ?thesis
      by (subst (asm) cstr.simps) simp
  next
    case False
    with assms ib show ?thesis
      by (subst (asm) cstr.simps) (cases "cstr m (a + 1)"; auto)
  qed
qed

text \<open>\<^verbatim>\<open>strcmp\<close> on two C strings of the core is 0 exactly when they are equal.\<close>

lemma strcmp_cstr:
  "cstr m a = Ok u \<Longrightarrow> cstr m b = Ok v \<Longrightarrow> \<exists>c. strcmp m a b = Ok c \<and> (c = 0 \<longleftrightarrow> u = v)"
proof (induction u arbitrary: a b v)
  case Nil
  from cstr_Ok_cases [OF Nil(1)] have a: "in_bytes a" "byte_at m a = 0"
    by (auto split: if_splits)
  from cstr_Ok_cases [OF Nil(2)] have b: "in_bytes b"
    "if byte_at m b = 0 then v = [] else v \<noteq> []"
    by (auto split: if_splits)
  show ?case
  proof (cases "byte_at m b = 0")
    case True
    with a b show ?thesis by (subst strcmp.simps) simp
  next
    case False
    with a b show ?thesis by (subst strcmp.simps) (simp add: word_uint_eq_iff)
  qed
next
  case (Cons x u)
  from cstr_Ok_cases [OF Cons.prems(1)] have a: "in_bytes a" "byte_at m a = x" "x \<noteq> 0"
    "cstr m (a + 1) = Ok u"
    by (auto split: if_splits)
  from cstr_Ok_cases [OF Cons.prems(2)] have b: "in_bytes b" by simp
  show ?case
  proof (cases "byte_at m b = x")
    case True
    with cstr_Ok_cases [OF Cons.prems(2)] a obtain v' where
      v: "v = x # v'" "cstr m (b + 1) = Ok v'"
      by (auto split: if_splits)
    from Cons.IH [OF a(4) v(2)] obtain c where
      "strcmp m (a + 1) (b + 1) = Ok c" "c = 0 \<longleftrightarrow> u = v'"
      by blast
    with a b True v show ?thesis by (subst strcmp.simps) simp
  next
    case False
    with cstr_Ok_cases [OF Cons.prems(2)] have "v = [] \<or> hd v \<noteq> x"
      by (auto split: if_splits)
    then have "x # u \<noteq> v" by auto
    moreover from False a have "uint (byte_at m a) - uint (byte_at m b) \<noteq> 0"
      by (simp add: word_uint_eq_iff)
    ultimately show ?thesis
      using a b False by (subst strcmp.simps) simp
  qed
qed

lemma find_from_chain:
  assumes "m 2 = 0" and "cstr m STROFF = Ok tok"
  shows "chain m w es \<Longrightarrow> find_from m w = Some (Ok (first_match m tok es))"
proof (induction es arbitrary: w)
  case Nil
  then have w: "w = 1" by simp
  from strcmp_cstr [OF assms(2) assms(2)] have "strcmp m STROFF STROFF = Ok 0"
    by auto
  with w assms(1) show ?case
    by (subst find_from.simps) (simp add: in_core_def first_match_def)
next
  case (Cons e es)
  then have e: "w = e" "e \<noteq> 1" "uint e + 1 < STROFF div 2"
    "cstr m (name_addr m e) \<noteq> Undefined" "chain m (m (uint e)) es"
    by simp_all
  then obtain n where n: "cstr m (name_addr m e) = Ok n"
    by (cases "cstr m (name_addr m e)") auto
  from strcmp_cstr [OF assms(2) n] obtain c where
    c: "strcmp m STROFF (name_addr m e) = Ok c" "c = 0 \<longleftrightarrow> tok = n"
    by blast
  have core: "in_core (uint e + 1)"
    using e(3) by (simp add: in_core_def)
  show ?case
  proof (cases "c = 0")
    case True
    with c n have "first_match m tok (e # es) = e"
      by (simp add: first_match_def)
    with True c core e(1) show ?thesis
      by (subst find_from.simps) (simp add: name_addr_def)
  next
    case False
    with c n have "first_match m tok (e # es) = first_match m tok es"
      by (auto simp add: first_match_def)
    moreover have "find_from m (m (uint e)) = Some (Ok (first_match m tok es))"
      by (rule Cons.IH [OF e(5)])
    ultimately show ?thesis
      using False c core e(1) by (subst find_from.simps) (simp add: name_addr_def)
  qed
qed

lemma cstr_bytes_cong:
  "(\<And>b. a \<le> b \<Longrightarrow> byte_at m' b = byte_at m b) \<Longrightarrow> cstr m' a = cstr m a"
proof (induction m a rule: cstr.induct)
  case (1 m a)
  show ?case
  proof (cases "in_bytes a \<and> byte_at m a \<noteq> 0")
    case True
    then have "cstr m' (a + 1) = cstr m (a + 1)"
      by (intro "1.IH" "1.prems") auto
    with "1.prems" [of a] show ?thesis
      by (subst cstr.simps, subst (2) cstr.simps) simp
  next
    case False
    with "1.prems" [of a] show ?thesis
      by (subst cstr.simps, subst (2) cstr.simps) auto
  qed
qed

lemma cstr_of_bytes:
  "(\<And>i. i \<le> length tok \<Longrightarrow> in_bytes (a + int i) \<and> byte_at m (a + int i) = (tok @ [0]) ! i)
   \<Longrightarrow> cstr m a = Ok (takeWhile (\<lambda>c. c \<noteq> 0) tok)"
proof (induction tok arbitrary: a)
  case Nil
  from Nil [of 0] show ?case
    by (subst cstr.simps) simp
next
  case (Cons c cs)
  from Cons.prems [of 0] have a: "in_bytes a" "byte_at m a = c"
    by simp_all
  show ?case
  proof (cases "c = 0")
    case True
    with a show ?thesis by (subst cstr.simps) simp
  next
    case False
    have "cstr m (a + 1) = Ok (takeWhile (\<lambda>c. c \<noteq> 0) cs)"
    proof (rule Cons.IH)
      fix i assume "i \<le> length cs"
      with Cons.prems [of "Suc i"]
      show "in_bytes (a + 1 + int i) \<and> byte_at m (a + 1 + int i) = (cs @ [0]) ! i"
        by (simp add: add.assoc)
    qed
    with a False show ?thesis by (subst cstr.simps) simp
  qed
qed

lemma store_bytes_in_bytes:
  "store_bytes m a bs = Ok m' \<Longrightarrow> i < length bs \<Longrightarrow> in_bytes (a + int i)"
proof (induction bs arbitrary: m a i)
  case Nil
  then show ?case by simp
next
  case (Cons c cs)
  from Cons.prems(1) have a: "in_bytes a" "store_bytes (set_byte m a c) (a + 1) cs = Ok m'"
    by (simp_all split: if_splits)
  show ?case
  proof (cases i)
    case 0
    with a show ?thesis by simp
  next
    case (Suc j)
    with Cons.prems(2) have "j < length cs" by simp
    from Cons.IH [OF a(2) this] Suc show ?thesis by (simp add: add.assoc)
  qed
qed

text \<open>After a token and its NUL have been stored, the C string there is the token.\<close>

lemma cstr_stored_token:
  assumes "store_bytes m a (tok @ [0]) = Ok m'"
  shows "cstr m' a = Ok (takeWhile (\<lambda>c. c \<noteq> 0) tok)"
proof (rule cstr_of_bytes)
  fix i assume "i \<le> length tok"
  then have i: "i < length (tok @ [0])" by simp
  from store_bytes_in_bytes [OF assms i] store_bytes_byte_at [OF assms, of "a + int i"] i
  show "in_bytes (a + int i) \<and> byte_at m' (a + int i) = (tok @ [0]) ! i"
    by simp
qed

text \<open>Storing a token in the token buffer changes no entry of the dictionary.\<close>

lemma chain_token_stored:
  assumes st: "store_bytes m STROFF bs = Ok m'" and len: "length bs \<le> 32"
  shows "chain m w es \<Longrightarrow>
    chain m' w es \<and> (\<forall>e \<in> set es. cstr m' (name_addr m' e) = cstr m (name_addr m e))"
proof (induction es arbitrary: w)
  case Nil
  then show ?case by simp
next
  case (Cons e es)
  then have e: "w = e" "e \<noteq> 1" "uint e + 1 < STROFF div 2" "32 \<le> uint (m (uint e + 1))"
    "cstr m (name_addr m e) \<noteq> Undefined" "chain m (m (uint e)) es"
    by simp_all
  have cells: "m' i = m i" if "i < STROFF div 2" for i
    using that by (intro store_bytes_other_cell [OF st]) simp
  from e(3) have link: "m' (uint e) = m (uint e)" and off: "m' (uint e + 1) = m (uint e + 1)"
    by (simp_all add: cells)
  from off have na: "name_addr m' e = name_addr m e"
    by (simp add: name_addr_def)
  have "cstr m' (name_addr m e) = cstr m (name_addr m e)"
  proof (rule cstr_bytes_cong)
    fix b assume "name_addr m e \<le> b"
    with e(4) len have "\<not> (STROFF \<le> b \<and> b < STROFF + int (length bs))"
      by (simp add: name_addr_def)
    with store_bytes_byte_at [OF st, of b] show "byte_at m' b = byte_at m b"
      by simp
  qed
  with na have nm: "cstr m' (name_addr m' e) = cstr m (name_addr m e)"
    by simp
  from Cons.IH [OF e(6)] have
    "chain m' (m (uint e)) es \<and> (\<forall>e \<in> set es. cstr m' (name_addr m' e) = cstr m (name_addr m e))" .
  with e link off nm show ?case
    by simp
qed

lemma first_match_cong:
  "(\<forall>e \<in> set es. cstr m' (name_addr m' e) = cstr m (name_addr m e)) \<Longrightarrow>
   first_match m' tok es = first_match m tok es"
proof -
  assume "\<forall>e \<in> set es. cstr m' (name_addr m' e) = cstr m (name_addr m e)"
  then have "filter (\<lambda>e. cstr m' (name_addr m' e) = Ok tok) es
           = filter (\<lambda>e. cstr m (name_addr m e) = Ok tok) es"
    by (intro filter_cong) auto
  then show ?thesis by (simp add: first_match_def)
qed

lemma scan_token_length:
  assumes "scan_token inp = Some (tok, rest)"
  shows "length tok \<le> 31 \<and> tok \<noteq> []"
proof -
  let ?inp = "dropWhile isspace inp"
  from assms have ne: "?inp \<noteq> []"
    and tok: "tok = take 31 (takeWhile (\<lambda>c. \<not> isspace c) ?inp)"
    by (auto simp add: scan_token_def Let_def split: if_splits)
  from ne have "\<not> isspace (hd ?inp)"
    by (rule hd_dropWhile)
  with ne have "takeWhile (\<lambda>c. \<not> isspace c) ?inp \<noteq> []"
    by (cases ?inp) auto
  with tok show ?thesis by simp
qed

lemma scan_token_shorter:
  "scan_token inp = Some (tok, rest) \<Longrightarrow> length rest < length inp"
proof -
  assume a: "scan_token inp = Some (tok, rest)"
  then have "tok \<noteq> []" by (simp add: scan_token_length)
  moreover from a have "rest = drop (length tok) (dropWhile isspace inp)"
    by (auto simp add: scan_token_def Let_def split: if_splits)
  moreover from a have "length tok \<le> length (dropWhile isspace inp)"
    by (auto simp add: scan_token_def Let_def min_def split: if_splits
        intro: order_trans [OF length_takeWhile_le])
  moreover have "length (dropWhile isspace inp) \<le> length inp"
    by (rule length_dropWhile_le)
  ultimately show ?thesis by (cases tok) auto
qed

lemma scan_then_find:
  assumes "dictionary_ok (o_m st) (o_L st) es"
    and "scan_token (o_in st) = Some (tok, rest)"
  shows "\<exists>m'. store_bytes (o_m st) STROFF (tok @ [0]) = Ok m' \<and>
      fscanf_s STROFF st = Ok (1, st\<lparr>o_in := rest, o_m := m'\<rparr>) \<and>
      cstr m' STROFF = Ok (takeWhile (\<lambda>c. c \<noteq> 0) tok) \<and>
      find_word (st\<lparr>o_in := rest, o_m := m'\<rparr>)
        = Some (Ok (first_match (o_m st) (takeWhile (\<lambda>c. c \<noteq> 0) tok) es))"
proof -
  from assms(2) have len: "length (tok @ [0]) \<le> 32"
    by (simp add: scan_token_length)
  then have "STROFF + int (length (tok @ [0])) \<le> 2 * CORESZ"
    by simp
  with store_bytes_Ok [of STROFF "tok @ [0]" "o_m st"] obtain m' where
    m': "store_bytes (o_m st) STROFF (tok @ [0]) = Ok m'"
    by auto
  let ?st' = "st\<lparr>o_in := rest, o_m := m'\<rparr>"
  from assms(2) m' have scan: "fscanf_s STROFF st = Ok (1, ?st')"
    by (simp add: fscanf_s_def)
  from assms(1) have ch: "chain (o_m st) (o_L st) es" and two: "o_m st 2 = 0"
    by (simp_all add: dictionary_ok_def)
  from chain_token_stored [OF m' len ch] have ch': "chain m' (o_L st) es"
    and nm: "\<forall>e \<in> set es. cstr m' (name_addr m' e) = cstr (o_m st) (name_addr (o_m st) e)"
    by simp_all
  have "m' 2 = o_m st 2"
    by (intro store_bytes_other_cell [OF m']) simp
  with two have two': "m' 2 = 0" by simp
  have tok': "cstr m' STROFF = Ok (takeWhile (\<lambda>c. c \<noteq> 0) tok)"
    by (rule cstr_stored_token [OF m'])
  from find_from_chain [OF two' tok' ch'] first_match_cong [OF nm]
  have "find_word ?st' = Some (Ok (first_match (o_m st) (takeWhile (\<lambda>c. c \<noteq> 0) tok) es))"
    by (simp add: find_word_def)
  with scan m' tok' show ?thesis by blast
qed

text \<open>A walk that reaches two entries whose links lead to each other never ends.\<close>

lemma find_walk_find_from:
  "find_walk n m w = Some w' \<Longrightarrow> find_from m w = find_from m w'"
proof (induction n arbitrary: w)
  case 0
  then show ?case by simp
next
  case (Suc n)
  then have d: "differs m w" and w: "find_walk n m (m (uint w)) = Some w'"
    by (simp_all split: if_splits)
  from d have "find_from m w = find_from m (m (uint w))"
    by (subst find_from.simps) (auto simp add: differs_def split: chk.splits)
  with Suc.IH [OF w] show ?case by simp
qed

lemma find_cycle_never_ends:
  assumes "find_cycle m a b"
  shows "find_from m a = None"
proof (rule ccontr)
  assume "find_from m a \<noteq> None"
  then obtain y where y: "find_from m a = Some y" by auto
  have "\<not> (m' = m \<and> (w = a \<or> w = b))" if "find_from m' w = Some y'" for m' w y'
  proof (rule find_from.raw_induct [where P = "\<lambda>m' w y'. \<not> (m' = m \<and> (w = a \<or> w = b))", OF _ that])
    fix f :: "mem \<Rightarrow> cell \<Rightarrow> cell chk option" and m' w y'
    assume IH: "\<And>m' w y'. f m' w = Some y' \<Longrightarrow> \<not> (m' = m \<and> (w = a \<or> w = b))"
      and body: "(if \<not> in_core (uint w + 1) then Some Undefined
         else case strcmp m' STROFF (STROFF + uint (m' (uint w + 1))) of
                Ok c \<Rightarrow> if c = 0 then Some (Ok w) else f m' (m' (uint w))
              | Undefined \<Rightarrow> Some Undefined) = Some y'"
    show "\<not> (m' = m \<and> (w = a \<or> w = b))"
    proof
      assume c: "m' = m \<and> (w = a \<or> w = b)"
      with assms have d: "differs m w" and nx: "m (uint w) = a \<or> m (uint w) = b"
        by (auto simp add: find_cycle_def)
      from d c body have "f m (m (uint w)) = Some y'"
        by (auto simp add: differs_def split: chk.splits)
      from IH [OF this] nx show False by simp
    qed
  qed
  from this [OF y] show False by simp
qed

lemma store_breaks_dictionary_1:
  "map (\<lambda>st. (find_word st, o_m st DICTIONARY, o_m st 145))
     [scanned (after_run ''1 2 !'' ''zz'')]
   = [(Some (Ok 145), 145, 0)]"
  by code_simp

lemma store_breaks_dictionary_2:
  "observe (run_text ''1 2 ! zz'')
     = Some (Ok (- 1, [], [warn_text ''unknown instruction'' 205], True, 33, 31745))"
  by code_simp

lemma store_breaks_dictionary_3:
  "walks_into_cycle (scanned (after_run ''1 32255 ! 1 2 !'' ''zz'')) 28 1 32255"
  by code_simp

text \<open>
  C2, as claimed, fails. The links of the dictionary are cells of the core, which a store
  can write. After the program \<^verbatim>\<open>1 2 !\<close> the name offset of the sentinel is 1, and for the
  token \<^verbatim>\<open>zz\<close> the loop of \<^verbatim>\<open>find\<close> walks past the sentinel and returns 145, the dictionary
  free pointer, where there is neither an entry nor the sentinel (the run then ends with
  \<^verbatim>\<open>unknown instruction\<close> and the invalid flag set). After \<^verbatim>\<open>1 32255 ! 1 2 !\<close> the links
  lead from the sentinel to cell 32255 and back, both names differ from \<^verbatim>\<open>zz\<close>, and the loop
  never ends.
\<close>

theorem find_broken_dictionary_counterexample:
  "find_word (scanned (after_run ''1 2 !'' ''zz'')) = Some (Ok 145)
   \<and> o_m (scanned (after_run ''1 2 !'' ''zz'')) DICTIONARY = 145
   \<and> o_m (scanned (after_run ''1 2 !'' ''zz'')) 145 = 0
   \<and> observe (run_text ''1 2 ! zz'')
       = Some (Ok (- 1, [], [warn_text ''unknown instruction'' 205], True, 33, 31745))
   \<and> find_word (scanned (after_run ''1 32255 ! 1 2 !'' ''zz'')) = None"
proof -
  let ?X = "scanned (after_run ''1 32255 ! 1 2 !'' ''zz'')"
  from store_breaks_dictionary_3
  have w: "find_walk 28 (o_m ?X) (o_L ?X) = Some 1" and c: "find_cycle (o_m ?X) 1 32255"
    by (simp_all add: walks_into_cycle_def)
  from find_walk_find_from [OF w] find_cycle_never_ends [OF c]
  have "find_word ?X = None"
    by (simp add: find_word_def)
  with store_breaks_dictionary_1 store_breaks_dictionary_2 show ?thesis
    by simp
qed

text \<open>
  C2, amended. The dictionary is a linked list that ends at the sentinel as long as the cells
  that hold it are as \<^verbatim>\<open>forth_init\<close> and the defining words leave them; nothing in the
  machine keeps a store from changing them. Under that condition, made explicit (the links
  from the most recent entry pass through the entries \<open>es\<close>, none of them at address 1, and
  then reach address 1; the two header cells of each entry lie below cell 8192; each name
  starts at a byte offset of at least 32 and ends with a NUL inside the core; cell 2, the name
  offset of the sentinel, is 0), for every token the input gives: the token is stored,
  \<^verbatim>\<open>find\<close> returns, and its value is the first entry, from the most recent one backward,
  whose name is the token, bytewise, or the sentinel address 1 when no entry has that name.
  The object that \<^verbatim>\<open>forth_init\<close> returns meets the condition.
\<close>

theorem find_terminates:
  assumes "dictionary_ok (o_m st) (o_L st) es"
    and "scan_token (o_in st) = Some (tok, rest)"
  shows "\<exists>st'. fscanf_s STROFF st = Ok (1, st') \<and>
      find_word st' = Some (Ok (first_match (o_m st) (takeWhile (\<lambda>c. c \<noteq> 0) tok) es))"
  using scan_then_find [OF assms] by blast

lemma boot_dictionary:
  "dictionary_ok (o_m (boot_state ''dup'')) (o_L (boot_state ''dup'')) boot_entries"
  by code_simp

lemma boot_scan:
  "scan_token (o_in (boot_state ''dup'')) = Some (bytes_of ''dup'', [])"
  by code_simp

lemma boot_first_match:
  "first_match (o_m (boot_state ''dup'')) (takeWhile (\<lambda>c. c \<noteq> 0) (bytes_of ''dup'')) boot_entries
     = 125"
  by code_simp

theorem find_terminates_witness:
  "dictionary_ok (o_m (boot_state ''dup'')) (o_L (boot_state ''dup'')) boot_entries
   \<and> scan_token (o_in (boot_state ''dup'')) = Some (bytes_of ''dup'', [])
   \<and> (\<exists>st'. fscanf_s STROFF (boot_state ''dup'') = Ok (1, st')
         \<and> find_word st' = Some (Ok 125))"
proof -
  from find_terminates [OF boot_dictionary boot_scan]
  have "\<exists>st'. fscanf_s STROFF (boot_state ''dup'') = Ok (1, st')
         \<and> find_word st' = Some (Ok 125)"
    by (simp only: boot_first_match)
  with boot_dictionary boot_scan show ?thesis by blast
qed

section \<open>Token dispatch\<close>

lemma op_READ_token:
  assumes "read_scan st0 = Ok (1, st)" and "find_word st = Some (Ok w)"
  shows "op_READ st0 =
    Some (if w \<noteq> 1 then read_word (st\<lparr>l_w := w\<rparr>) else read_number (st\<lparr>l_w := w\<rparr>))"
  using assms by (simp add: op_READ_def read_scan_def)


lemma switch_COMPILE:
  "in_core (uint (l_x st)) \<Longrightarrow> o_m st (uint (l_x st)) = COMPILE \<Longrightarrow>
   switch st = Some (brk (op_COMPILE (st\<lparr>l_x := l_x st + 1\<rparr>)))"
  by (simp add: switch_def)

lemma switch_RUN:
  "in_core (uint (l_x st)) \<Longrightarrow> o_m st (uint (l_x st)) = RUN \<Longrightarrow>
   switch st = Some (brk (op_RUN (st\<lparr>l_x := l_x st + 1\<rparr>)))"
  by (simp add: switch_def)

lemma INNER_goto: "switch st = Some (Goto_INNER st') \<Longrightarrow> INNER st = INNER st'"
  by (subst INNER.simps) simp

text \<open>
  C1. A token that \<^verbatim>\<open>find\<close> resolves to an entry \<open>w\<close> (not the sentinel) sends control to
  the label \<^verbatim>\<open>INNER\<close>. If the tag cell \<open>w + 2\<close> holds \<open>COMPILE\<close> and the mode cell is 0, the
  switch then decodes body cell 0, the cell \<open>w + 3\<close>. If the tag is \<open>COMPILE\<close> and the mode cell
  is not 0, the switch decodes the tag itself, which appends \<open>w + 3\<close>, the address of body cell
  0, at the dictionary free pointer. If the tag is \<open>RUN\<close>, the switch decodes the tag whatever
  the mode cell holds: the instruction pointer is pushed on the return stack and set to
  \<open>w + 3\<close>.
\<close>

theorem token_dispatch_mode_rule:
  assumes "read_scan st0 = Ok (1, st)"
    and "find_word st = Some (Ok w)"
    and "w \<noteq> 1"
    and "in_core (uint (w + 2))"
    and "o_m st (uint (w + 2)) = COMPILE \<or> o_m st (uint (w + 2)) = RUN"
  shows
    "op_READ st0 =
       Some (Goto_INNER (st\<lparr>l_w := w,
         l_x := (if o_m st (uint (w + 2)) = COMPILE \<and> o_m st STATE = 0 then w + 3 else w + 2)\<rparr>))
     \<and> (o_m st (uint (w + 2)) = COMPILE \<and> o_m st STATE \<noteq> 0 \<longrightarrow>
          switch (st\<lparr>l_w := w, l_x := w + 2\<rparr>) =
            Some (if uint (o_m st DICTIONARY) = DICTIONARY \<or> \<not> in_core (uint (o_m st DICTIONARY))
                  then UB
                  else Break (st\<lparr>l_w := w, l_x := w + 3,
                    o_m := (o_m st)(DICTIONARY := o_m st DICTIONARY + 1,
                                    uint (o_m st DICTIONARY) := w + 3)\<rparr>)))
     \<and> (o_m st (uint (w + 2)) = RUN \<longrightarrow>
          switch (st\<lparr>l_w := w, l_x := w + 2\<rparr>) =
            Some (if uint (o_m st RSTK + 1) = RSTK \<or> \<not> in_core (uint (o_m st RSTK + 1))
                  then UB
                  else Break (st\<lparr>l_w := w, l_x := w + 3, l_I := w + 3,
                    o_m := (o_m st)(RSTK := o_m st RSTK + 1,
                                    uint (o_m st RSTK + 1) := l_I st)\<rparr>)))"
proof (intro conjI impI)
  from assms(3) have rd: "op_READ st0 = Some (read_word (st\<lparr>l_w := w\<rparr>))"
    using op_READ_token [OF assms(1,2)] by simp
  from assms(4,5) show "op_READ st0 =
       Some (Goto_INNER (st\<lparr>l_w := w,
         l_x := (if o_m st (uint (w + 2)) = COMPILE \<and> o_m st STATE = 0 then w + 3 else w + 2)\<rparr>))"
    unfolding rd by (auto simp add: read_word_def Let_def add.assoc)
next
  assume "o_m st (uint (w + 2)) = COMPILE \<and> o_m st STATE \<noteq> 0"
  with assms(4) show "switch (st\<lparr>l_w := w, l_x := w + 2\<rparr>) =
            Some (if uint (o_m st DICTIONARY) = DICTIONARY \<or> \<not> in_core (uint (o_m st DICTIONARY))
                  then UB
                  else Break (st\<lparr>l_w := w, l_x := w + 3,
                    o_m := (o_m st)(DICTIONARY := o_m st DICTIONARY + 1,
                                    uint (o_m st DICTIONARY) := w + 3)\<rparr>))"
    by (simp add: switch_COMPILE op_COMPILE_def comma_def brk_def Let_def add.assoc)
next
  assume "o_m st (uint (w + 2)) = RUN"
  with assms(4) show "switch (st\<lparr>l_w := w, l_x := w + 2\<rparr>) =
            Some (if uint (o_m st RSTK + 1) = RSTK \<or> \<not> in_core (uint (o_m st RSTK + 1))
                  then UB
                  else Break (st\<lparr>l_w := w, l_x := w + 3, l_I := w + 3,
                    o_m := (o_m st)(RSTK := o_m st RSTK + 1,
                                    uint (o_m st RSTK + 1) := l_I st)\<rparr>))"
    by (simp add: switch_RUN op_RUN_def rpush_def brk_def Let_def add.assoc)
qed

text \<open>The freshly initialised object reads the token \<^verbatim>\<open>dup\<close> in execute mode.\<close>

lemma boot_read_dictionary:
  "dictionary_ok ((o_m (boot_state ''dup''))(RSTK := o_m (boot_state ''dup'') RSTK - 1))
     (o_L (boot_state ''dup'')) boot_entries"
  by code_simp

lemma boot_read_first_match:
  "first_match ((o_m (boot_state ''dup''))(RSTK := o_m (boot_state ''dup'') RSTK - 1))
     (takeWhile (\<lambda>c. c \<noteq> 0) (bytes_of ''dup'')) boot_entries = 125"
  by code_simp

lemma boot_cells:
  "o_m (boot_state ''dup'') 127 = COMPILE \<and> o_m (boot_state ''dup'') STATE = 0"
  by code_simp

theorem token_dispatch_mode_rule_witness:
  "\<exists>st. read_scan (boot_state ''dup'') = Ok (1, st)
     \<and> find_word st = Some (Ok 125)
     \<and> (125 :: cell) \<noteq> 1
     \<and> in_core (uint (125 + 2 :: cell))
     \<and> o_m st (uint (125 + 2 :: cell)) = COMPILE
     \<and> o_m st STATE = 0
     \<and> op_READ (boot_state ''dup'') = Some (Goto_INNER (st\<lparr>l_w := 125, l_x := 128\<rparr>))"
proof -
  let ?W = "(boot_state ''dup'')\<lparr>o_m := (o_m (boot_state ''dup''))(RSTK := o_m (boot_state ''dup'') RSTK - 1)\<rparr>"
  have d: "dictionary_ok (o_m ?W) (o_L ?W) boot_entries"
    using boot_read_dictionary by simp
  have s: "scan_token (o_in ?W) = Some (bytes_of ''dup'', [])"
    using boot_scan by simp
  from scan_then_find [OF d s] obtain m' where
    m': "store_bytes (o_m ?W) STROFF (bytes_of ''dup'' @ [0]) = Ok m'" and
    sc: "fscanf_s STROFF ?W = Ok (1, ?W\<lparr>o_in := [], o_m := m'\<rparr>)" and
    fw: "find_word (?W\<lparr>o_in := [], o_m := m'\<rparr>)
           = Some (Ok (first_match (o_m ?W) (takeWhile (\<lambda>c. c \<noteq> 0) (bytes_of ''dup'')) boot_entries))"
    by blast
  let ?st = "?W\<lparr>o_in := [], o_m := m'\<rparr>"
  have h1: "read_scan (boot_state ''dup'') = Ok (1, ?st)"
    using sc by (simp add: read_scan_def)
  have h2: "find_word ?st = Some (Ok 125)"
    using fw boot_read_first_match by simp
  have h3: "(125 :: cell) \<noteq> 1" by simp
  have h4: "in_core (uint (125 + 2 :: cell))" by (simp add: in_core_def)
  have "m' 127 = o_m ?W 127" "m' STATE = o_m ?W STATE"
    by (rule store_bytes_other_cell [OF m'], simp)+
  with boot_cells have h5: "o_m ?st (uint (125 + 2 :: cell)) = COMPILE" and h6: "o_m ?st STATE = 0"
    by simp_all
  from token_dispatch_mode_rule [OF h1 h2 h3 h4 disjI1, OF h5, THEN conjunct1]
  have "op_READ (boot_state ''dup'') = Some (Goto_INNER (?st\<lparr>l_w := 125, l_x := 128\<rparr>))"
    using h5 h6 by simp
  with h1 h2 h3 h4 h5 h6 show ?thesis by blast
qed

section \<open>Tokens that are not words\<close>

lemma isnum_iff:
  "isnum s = (\<forall>c \<in> set (if s \<noteq> [] \<and> hd s = 45 then tl s else s). is_digit c)"
  by (simp add: isnum_def Let_def dropWhile_eq_Nil_conv)

lemma cstr_prefix_cong:
  "cstr m a = Ok s \<Longrightarrow> (\<And>b. a \<le> b \<Longrightarrow> b \<le> a + int (length s) \<Longrightarrow> byte_at m' b = byte_at m b)
   \<Longrightarrow> cstr m' a = Ok s"
proof (induction s arbitrary: a)
  case Nil
  from cstr_Ok_cases [OF Nil(1)] have "in_bytes a" "byte_at m a = 0"
    by (auto split: if_splits)
  with Nil(2) [of a] show ?case
    by (subst cstr.simps) simp
next
  case (Cons x s)
  from cstr_Ok_cases [OF Cons.prems(1)] have a: "in_bytes a" "byte_at m a = x" "x \<noteq> 0"
    "cstr m (a + 1) = Ok s"
    by (auto split: if_splits)
  have "cstr m' (a + 1) = Ok s"
  proof (rule Cons.IH [OF a(4)])
    fix b assume "a + 1 \<le> b" "b \<le> a + 1 + int (length s)"
    then show "byte_at m' b = byte_at m b"
      by (intro Cons.prems(2)) auto
  qed
  moreover from Cons.prems(2) [of a] a have "byte_at m' a = x" by simp
  ultimately show ?case
    using a by (subst cstr.simps) simp
qed

lemma cstr_length: "cstr m a = Ok s \<Longrightarrow> a + int (length s) < 2 * CORESZ"
proof (induction s arbitrary: a)
  case Nil
  from cstr_Ok_cases [OF Nil] show ?case by (simp add: in_bytes_def)
next
  case (Cons x s)
  from cstr_Ok_cases [OF Cons.prems] have "cstr m (a + 1) = Ok s"
    by (auto split: if_splits)
  from Cons.IH [OF this] show ?case by simp
qed

text \<open>What \<^verbatim>\<open>fscanf\<close> leaves in the token buffer is a string of at most 31 bytes.\<close>

lemma read_scan_token:
  assumes "read_scan st0 = Ok (1, st)" and "cstr (o_m st) STROFF = Ok s"
  shows "length s \<le> 31"
proof -
  let ?W = "st0\<lparr>o_m := (o_m st0)(RSTK := o_m st0 RSTK - 1)\<rparr>"
  from assms(1) obtain tok rest where sc: "scan_token (o_in ?W) = Some (tok, rest)"
    by (cases "scan_token (o_in ?W)") (auto simp add: read_scan_def fscanf_s_def)
  with assms(1) obtain m' where m': "store_bytes (o_m ?W) STROFF (tok @ [0]) = Ok m'"
    and st: "st = ?W\<lparr>o_in := rest, o_m := m'\<rparr>"
    by (cases "store_bytes (o_m ?W) STROFF (tok @ [0])") (auto simp add: read_scan_def fscanf_s_def)
  from cstr_stored_token [OF m'] assms(2) st have "s = takeWhile (\<lambda>c. c \<noteq> 0) tok"
    by simp
  then have "length s \<le> length tok"
    by (simp add: length_takeWhile_le)
  with scan_token_length [OF sc] show ?thesis by simp
qed

text \<open>
  A write to a cell that holds no byte of the token, nor its NUL, leaves the token as it is.
\<close>

lemma token_kept:
  assumes "cstr m STROFF = Ok s"
    and "\<not> (STROFF div 2 \<le> i \<and> i \<le> STROFF div 2 + int (length s) div 2)"
  shows "cstr (m(i := v)) STROFF = Ok s"
proof (rule cstr_prefix_cong [OF assms(1)])
  fix b assume "STROFF \<le> b" "b \<le> STROFF + int (length s)"
  with assms(2) have "b div 2 \<noteq> i" by auto
  then show "byte_at (m(i := v)) b = byte_at m b"
    by (simp add: byte_at_def)
qed

lemma read_number_not_num:
  assumes "cstr (o_m st) STROFF = Ok s" and "\<not> isnum s"
  shows "read_number st = Break (st\<lparr>o_err := o_err st @ [warn_text ''not a word or number'' 168]\<rparr>)"
  using assms by (simp add: read_number_def WARN_def)

lemma read_number_compile:
  assumes tok: "cstr (o_m st) STROFF = Ok s" and num: "isnum s" and mode: "o_m st STATE \<noteq> 0"
  shows "read_number st =
    (if uint (o_m st DICTIONARY) = 0 \<or> \<not> in_core (uint (o_m st DICTIONARY) + 1) then UB
     else case cstr ((o_m st)(DICTIONARY := o_m st DICTIONARY + 1,
                              uint (o_m st DICTIONARY) := 2)) STROFF of
            Undefined \<Rightarrow> UB
          | Ok s1 \<Rightarrow>
              Break (st\<lparr>o_m := (o_m st)(DICTIONARY := o_m st DICTIONARY + 2,
                                          uint (o_m st DICTIONARY) := 2,
                                          uint (o_m st DICTIONARY) + 1 := word_of_int (strtol s1))\<rparr>))"
proof -
  let ?d = "o_m st DICTIONARY"
  let ?m1 = "(o_m st)(DICTIONARY := ?d + 1, uint ?d := 2)"
  have rn: "read_number st =
      brk (chk_bind (comma 2 st) (\<lambda>st1. chk_bind (cstr (o_m st1) STROFF)
          (\<lambda>s1. comma (word_of_int (strtol s1)) st1)))"
    using tok num mode by (simp add: read_number_def)
  have ge: "0 \<le> uint ?d" by simp
  show ?thesis
  proof (cases "uint ?d = 0 \<or> \<not> in_core (uint ?d)")
    case True
    then have "comma 2 st = Undefined"
      by (simp add: comma_def Let_def)
    moreover from True ge have "uint ?d = 0 \<or> \<not> in_core (uint ?d + 1)"
      by (auto simp add: in_core_def)
    ultimately show ?thesis
      unfolding rn by (simp add: brk_def)
  next
    case False
    then have "uint ?d \<noteq> 0" and d2: "uint ?d < CORESZ"
      by (auto simp add: in_core_def)
    with ge have d: "0 < uint ?d" "uint ?d < CORESZ"
      by arith+
    from False have c1: "comma 2 st = Ok (st\<lparr>o_m := ?m1\<rparr>)"
      by (simp add: comma_def Let_def)
    from d have d1: "uint (?d + 1) = uint ?d + 1"
      by (simp add: uint_word_ariths)
    from d have m10: "?m1 DICTIONARY = ?d + 1"
      by simp
    have sel: "o_m (st\<lparr>o_m := ?m1\<rparr>) = ?m1"
      by simp
    show ?thesis
    proof (cases "cstr ?m1 STROFF")
      case Undefined
      then show ?thesis
        unfolding rn c1 chk_bind.simps sel by (simp add: brk_def)
    next
      case (Ok s1)
      show ?thesis
      proof (cases "in_core (uint ?d + 1)")
        case True
        with d d1 m10 have c2: "comma (word_of_int (strtol s1)) (st\<lparr>o_m := ?m1\<rparr>) =
            Ok (st\<lparr>o_m := ?m1(DICTIONARY := ?d + 1 + 1, uint ?d + 1 := word_of_int (strtol s1))\<rparr>)"
          by (simp add: comma_def in_core_def Let_def)
        have mem: "?m1(DICTIONARY := ?d + 1 + 1, uint ?d + 1 := word_of_int (strtol s1)) =
            (o_m st)(DICTIONARY := ?d + 2, uint ?d := 2, uint ?d + 1 := word_of_int (strtol s1))"
          using d by (auto simp add: fun_eq_iff)
        have "chk_bind (comma 2 st) (\<lambda>st1. chk_bind (cstr (o_m st1) STROFF)
                (\<lambda>s1. comma (word_of_int (strtol s1)) st1)) =
              Ok (st\<lparr>o_m := (o_m st)(DICTIONARY := ?d + 2, uint ?d := 2,
                                       uint ?d + 1 := word_of_int (strtol s1))\<rparr>)"
          unfolding c1 chk_bind.simps sel Ok c2 mem by (rule refl)
        then have "read_number st = Break (st\<lparr>o_m := (o_m st)(DICTIONARY := ?d + 2, uint ?d := 2,
                                       uint ?d + 1 := word_of_int (strtol s1))\<rparr>)"
          unfolding rn by (simp only: brk_def chk.case)
        with True d Ok show ?thesis
          by simp
      next
        case False
        with d d1 m10 have c2: "comma (word_of_int (strtol s1)) (st\<lparr>o_m := ?m1\<rparr>) = Undefined"
          by (simp add: comma_def in_core_def Let_def)
        have "chk_bind (comma 2 st) (\<lambda>st1. chk_bind (cstr (o_m st1) STROFF)
                (\<lambda>s1. comma (word_of_int (strtol s1)) st1)) = Undefined"
          unfolding c1 chk_bind.simps sel Ok c2 by (rule refl)
        then have "read_number st = UB"
          unfolding rn by (simp only: brk_def chk.case)
        with False show ?thesis
          by simp
      qed
    qed
  qed
qed

lemma read_number_execute:
  assumes tok: "cstr (o_m st) STROFF = Ok s" and num: "isnum s" and mode: "o_m st STATE = 0"
  shows "read_number st =
    (if \<not> in_core (l_S st + 1) then UB
     else case cstr ((o_m st)(l_S st + 1 := l_f st)) STROFF of
            Undefined \<Rightarrow> UB
          | Ok s1 \<Rightarrow>
              Break (st\<lparr>l_S := l_S st + 1, o_m := (o_m st)(l_S st + 1 := l_f st),
                         l_f := word_of_int (strtol s1)\<rparr>))"
  using tok num mode
  by (simp add: read_number_def dpush_def Let_def brk_def split: chk.splits)

text \<open>
  C7, as claimed, fails for a radix prefix: \<^verbatim>\<open>0x10\<close> is no word of the dictionary and
  \<^verbatim>\<open>strtol\<close> reads it as 16, but \<^verbatim>\<open>isnum\<close> accepts decimal digits only: the run writes
  the diagnostic and pushes nothing.
\<close>

theorem hex_token_counterexample:
  "strtol (bytes_of ''0x10'') = 16 \<and>
   observe (run_text ''0x10'')
     = Some (Ok (0, [], [warn_text ''not a word or number'' 168], False, 0, 31744))"
  by code_simp

text \<open>
  C7, amended. For every token \<open>s\<close> that is not found in the dictionary, in every state:

  \<^item> the token is a number when it is an optional \<^verbatim>\<open>-\<close> followed by decimal digits only.
    Every other token, also one with the prefix \<^verbatim>\<open>0x\<close> or a \<^verbatim>\<open>+\<close> sign, gets a
    diagnostic and is dropped, and the run goes on with the invalid flag as it was;

  \<^item> a number in compile mode appends two cells at the dictionary free pointer \<open>d\<close>: first
    the cell 2 (the address of the cell that holds the push instruction), then the value. The
    behaviour is undefined when \<open>d\<close> is 0 or when \<open>d + 1\<close> is no cell of the core;

  \<^item> a number in execute mode pushes the accumulator on the data stack, and the value becomes
    the accumulator. The behaviour is undefined when the push is outside the core;

  \<^item> the value is what \<^verbatim>\<open>strtol\<close> gives, in base 0 (a leading 0 makes it octal) and cut to
    16 bits, for the string that is in the token buffer after the first append, or after the
    push (undefined when no NUL ends it inside the core). That string is the token, unless
    the cell written, \<open>d\<close> or the new top of the stack, is one of the cells that hold the
    token and its NUL: the value of a literal is the value of its token as long as the
    dictionary and the stack stay out of the token buffer.
\<close>

theorem unknown_token_amended:
  assumes "read_scan st0 = Ok (1, st)"
    and "find_word st = Some (Ok 1)"
    and "cstr (o_m st) STROFF = Ok s"
  shows
    "isnum s = (\<forall>c \<in> set (if s \<noteq> [] \<and> hd s = 45 then tl s else s). is_digit c)
     \<and> op_READ st0 = Some
         (if \<not> isnum s then
            Break (st\<lparr>l_w := 1, o_err := o_err st @ [warn_text ''not a word or number'' 168]\<rparr>)
          else if o_m st STATE \<noteq> 0 then
            (if uint (o_m st DICTIONARY) = 0 \<or> \<not> in_core (uint (o_m st DICTIONARY) + 1) then UB
             else case cstr ((o_m st)(DICTIONARY := o_m st DICTIONARY + 1,
                                      uint (o_m st DICTIONARY) := 2)) STROFF of
                    Undefined \<Rightarrow> UB
                  | Ok s1 \<Rightarrow>
                      Break (st\<lparr>l_w := 1,
                        o_m := (o_m st)(DICTIONARY := o_m st DICTIONARY + 2,
                                        uint (o_m st DICTIONARY) := 2,
                                        uint (o_m st DICTIONARY) + 1 := word_of_int (strtol s1))\<rparr>))
          else
            (if \<not> in_core (l_S st + 1) then UB
             else case cstr ((o_m st)(l_S st + 1 := l_f st)) STROFF of
                    Undefined \<Rightarrow> UB
                  | Ok s1 \<Rightarrow>
                      Break (st\<lparr>l_w := 1, l_S := l_S st + 1,
                        o_m := (o_m st)(l_S st + 1 := l_f st),
                        l_f := word_of_int (strtol s1)\<rparr>)))
     \<and> (\<not> (STROFF div 2 \<le> uint (o_m st DICTIONARY)
            \<and> uint (o_m st DICTIONARY) \<le> STROFF div 2 + int (length s) div 2) \<longrightarrow>
          cstr ((o_m st)(DICTIONARY := o_m st DICTIONARY + 1,
                         uint (o_m st DICTIONARY) := 2)) STROFF = Ok s)
     \<and> (\<not> (STROFF div 2 \<le> l_S st + 1 \<and> l_S st + 1 \<le> STROFF div 2 + int (length s) div 2) \<longrightarrow>
          cstr ((o_m st)(l_S st + 1 := l_f st)) STROFF = Ok s)"
proof -
  let ?st = "st\<lparr>l_w := 1\<rparr>"
  have rd: "op_READ st0 = Some (read_number ?st)"
    using op_READ_token [OF assms(1,2)] by simp
  have tok: "cstr (o_m ?st) STROFF = Ok s"
    using assms(3) by simp
  have a: "\<not> isnum s \<Longrightarrow> read_number ?st =
      Break (st\<lparr>l_w := 1, o_err := o_err st @ [warn_text ''not a word or number'' 168]\<rparr>)"
    using read_number_not_num [OF tok] by simp
  have b: "isnum s \<Longrightarrow> o_m st STATE \<noteq> 0 \<Longrightarrow> read_number ?st =
      (if uint (o_m st DICTIONARY) = 0 \<or> \<not> in_core (uint (o_m st DICTIONARY) + 1) then UB
       else case cstr ((o_m st)(DICTIONARY := o_m st DICTIONARY + 1,
                                uint (o_m st DICTIONARY) := 2)) STROFF of
              Undefined \<Rightarrow> UB
            | Ok s1 \<Rightarrow>
                Break (st\<lparr>l_w := 1,
                  o_m := (o_m st)(DICTIONARY := o_m st DICTIONARY + 2,
                                  uint (o_m st DICTIONARY) := 2,
                                  uint (o_m st DICTIONARY) + 1 := word_of_int (strtol s1))\<rparr>))"
    using read_number_compile [OF tok] by (simp cong: chk.case_cong)
  have c: "isnum s \<Longrightarrow> o_m st STATE = 0 \<Longrightarrow> read_number ?st =
      (if \<not> in_core (l_S st + 1) then UB
       else case cstr ((o_m st)(l_S st + 1 := l_f st)) STROFF of
              Undefined \<Rightarrow> UB
            | Ok s1 \<Rightarrow>
                Break (st\<lparr>l_w := 1, l_S := l_S st + 1,
                  o_m := (o_m st)(l_S st + 1 := l_f st),
                  l_f := word_of_int (strtol s1)\<rparr>))"
    using read_number_execute [OF tok] by (simp cong: chk.case_cong)
  have tok0: "cstr ((o_m st)(DICTIONARY := o_m st DICTIONARY + 1)) STROFF = Ok s"
    by (rule token_kept [OF assms(3)]) simp
  have d: "cstr ((o_m st)(DICTIONARY := o_m st DICTIONARY + 1,
                          uint (o_m st DICTIONARY) := 2)) STROFF = Ok s"
    if "\<not> (STROFF div 2 \<le> uint (o_m st DICTIONARY)
            \<and> uint (o_m st DICTIONARY) \<le> STROFF div 2 + int (length s) div 2)"
    by (rule token_kept [OF tok0 that])
  have e: "cstr ((o_m st)(l_S st + 1 := l_f st)) STROFF = Ok s"
    if "\<not> (STROFF div 2 \<le> l_S st + 1 \<and> l_S st + 1 \<le> STROFF div 2 + int (length s) div 2)"
    by (rule token_kept [OF assms(3) that])
  have r: "op_READ st0 = Some
         (if \<not> isnum s then
            Break (st\<lparr>l_w := 1, o_err := o_err st @ [warn_text ''not a word or number'' 168]\<rparr>)
          else if o_m st STATE \<noteq> 0 then
            (if uint (o_m st DICTIONARY) = 0 \<or> \<not> in_core (uint (o_m st DICTIONARY) + 1) then UB
             else case cstr ((o_m st)(DICTIONARY := o_m st DICTIONARY + 1,
                                      uint (o_m st DICTIONARY) := 2)) STROFF of
                    Undefined \<Rightarrow> UB
                  | Ok s1 \<Rightarrow>
                      Break (st\<lparr>l_w := 1,
                        o_m := (o_m st)(DICTIONARY := o_m st DICTIONARY + 2,
                                        uint (o_m st DICTIONARY) := 2,
                                        uint (o_m st DICTIONARY) + 1 := word_of_int (strtol s1))\<rparr>))
          else
            (if \<not> in_core (l_S st + 1) then UB
             else case cstr ((o_m st)(l_S st + 1 := l_f st)) STROFF of
                    Undefined \<Rightarrow> UB
                  | Ok s1 \<Rightarrow>
                      Break (st\<lparr>l_w := 1, l_S := l_S st + 1,
                        o_m := (o_m st)(l_S st + 1 := l_f st),
                        l_f := word_of_int (strtol s1)\<rparr>)))"
  proof (cases "isnum s")
    case False
    with a show ?thesis unfolding rd by simp
  next
    case True
    show ?thesis
    proof (cases "o_m st STATE = 0")
      case z: True
      show ?thesis unfolding rd c [OF True z] using True z by simp
    next
      case z: False
      show ?thesis unfolding rd b [OF True z] using True z by simp
    qed
  qed
  show ?thesis
    by (intro conjI impI isnum_iff r d e)
qed

text \<open>The freshly initialised object reads the token \<^verbatim>\<open>010\<close> in execute mode: 8 is pushed.\<close>

lemma boot_no_match:
  "first_match ((o_m (boot_state ''dup''))(RSTK := o_m (boot_state ''dup'') RSTK - 1))
     (takeWhile (\<lambda>c. c \<noteq> 0) (bytes_of ''010'')) boot_entries = 1"
  by code_simp

theorem unknown_token_amended_witness:
  "\<exists>st. read_scan ((boot_state ''dup'')\<lparr>o_in := bytes_of ''010'', l_S := 31744\<rparr>) = Ok (1, st)
     \<and> find_word st = Some (Ok 1)
     \<and> cstr (o_m st) STROFF = Ok (bytes_of ''010'')
     \<and> isnum (bytes_of ''010'') \<and> o_m st STATE = 0
     \<and> in_core (l_S st + 1)
     \<and> cstr ((o_m st)(l_S st + 1 := l_f st)) STROFF = Ok (bytes_of ''010'')
     \<and> strtol (bytes_of ''010'') = 8
     \<and> op_READ ((boot_state ''dup'')\<lparr>o_in := bytes_of ''010'', l_S := 31744\<rparr>) =
         Some (Break (st\<lparr>l_w := 1, l_S := 31745, o_m := (o_m st)(31745 := l_f st), l_f := 8\<rparr>))"
proof -
  let ?V = "(boot_state ''dup'')\<lparr>o_in := bytes_of ''010'', l_S := 31744\<rparr>"
  let ?W = "?V\<lparr>o_m := (o_m ?V)(RSTK := o_m ?V RSTK - 1)\<rparr>"
  have d: "dictionary_ok (o_m ?W) (o_L ?W) boot_entries"
    using boot_read_dictionary by simp
  have s: "scan_token (o_in ?W) = Some (bytes_of ''010'', [])"
    by (simp add: scan_token_def bytes_of_def isspace_def)
  have tw: "takeWhile (\<lambda>c. c \<noteq> 0) (bytes_of ''010'') = bytes_of ''010''"
    by (simp add: bytes_of_def)
  from scan_then_find [OF d s] obtain m' where
    m': "store_bytes (o_m ?W) STROFF (bytes_of ''010'' @ [0]) = Ok m'" and
    sc: "fscanf_s STROFF ?W = Ok (1, ?W\<lparr>o_in := [], o_m := m'\<rparr>)" and
    cs: "cstr m' STROFF = Ok (takeWhile (\<lambda>c. c \<noteq> 0) (bytes_of ''010''))" and
    fw: "find_word (?W\<lparr>o_in := [], o_m := m'\<rparr>)
           = Some (Ok (first_match (o_m ?W) (takeWhile (\<lambda>c. c \<noteq> 0) (bytes_of ''010'')) boot_entries))"
    by blast
  let ?st = "?W\<lparr>o_in := [], o_m := m'\<rparr>"
  have h1: "read_scan ?V = Ok (1, ?st)"
    using sc by (simp add: read_scan_def)
  have h2: "find_word ?st = Some (Ok 1)"
    using fw boot_no_match by simp
  have h3: "cstr (o_m ?st) STROFF = Ok (bytes_of ''010'')"
    using cs tw by simp
  have h4: "isnum (bytes_of ''010'')"
    by (simp add: isnum_def bytes_of_def is_digit_def)
  have "m' STATE = o_m ?W STATE"
    by (rule store_bytes_other_cell [OF m'], simp)
  with boot_cells have h5: "o_m ?st STATE = 0"
    by simp
  have h6: "in_core (l_S ?st + 1)"
    by (simp add: in_core_def)
  have out: "\<not> (STROFF div 2 \<le> l_S ?st + 1
               \<and> l_S ?st + 1 \<le> STROFF div 2 + int (length (bytes_of ''010'')) div 2)"
    by (simp add: bytes_of_def)
  note inst = unknown_token_amended [OF h1 h2 h3]
  have h7: "cstr ((o_m ?st)(l_S ?st + 1 := l_f ?st)) STROFF = Ok (bytes_of ''010'')"
    by (rule inst [THEN conjunct2, THEN conjunct2, THEN conjunct2, THEN mp, OF out])
  have v: "strtol (bytes_of ''010'') = 8"
    by (simp add: strtol_def bytes_of_def isspace_def digit_val_def Let_def)
  have "op_READ ?V =
         Some (Break (?st\<lparr>l_w := 1, l_S := 31745, o_m := (o_m ?st)(31745 := l_f ?st), l_f := 8\<rparr>))"
    unfolding inst [THEN conjunct2, THEN conjunct1] using h4 h5 h6 h7 v by simp
  with h1 h2 h3 h4 h5 h6 h7 v show ?thesis by blast
qed

text \<open>
  A literal whose first append lands in the token buffer: after \<^verbatim>\<open>8192 0 ! 1 8 !\<close> the
  dictionary free pointer is the first cell of the token buffer and the machine compiles. The
  token \<^verbatim>\<open>77\<close> appends the cell 2 over its own first two bytes, and the value read from the
  buffer is then 0.
\<close>

lemma literal_in_token_buffer:
  "map (o_m (after_run ''8192 0 ! 1 8 ! 77'' [])) [DICTIONARY, STATE, 8192, 8193] = [8194, 1, 2, 0]"
  by code_simp

section \<open>The outer loop and the return stack\<close>




lemma dpush_frame:
  "dpush v s = Ok t \<Longrightarrow> o_m t = (o_m s)(l_S s + 1 := v) \<and> l_I t = l_I s"
  by (auto simp add: dpush_def Let_def split: if_splits)





lemma to_break_INNER: "to_break s s' \<Longrightarrow> INNER s = for_loop s'"
proof (induction rule: to_break.induct)
  case (at_break s s')
  then show ?case
    by (subst INNER.simps) (simp add: for_loop_def)
next
  case (at_goto s s1 s')
  then show ?case
    by (subst INNER.simps) simp
qed

text \<open>After a pass the run is the run from the state the pass ended in.\<close>

lemma pass_for_loop: "pass s s' \<Longrightarrow> for_loop s = for_loop s'"
  by (auto simp add: pass_def for_loop_def to_break_INNER)

text \<open>A call of \<^verbatim>\<open>forth_run\<close> on a valid object is the loop, from the registers of the object.\<close>

lemma forth_run_for_loop:
  "\<not> o_invalid obj \<Longrightarrow>
   forth_run obj = for_loop (obj\<lparr>l_x := o_x obj, l_S := o_S obj, l_I := o_I obj, l_f := o_f obj\<rparr>)"
  by (simp add: forth_run_def for_loop_def)









end
